theory Spec2Isabelle
  imports Main
begin

section \<open>JavaScript strings and arrays\<close>

text \<open>
  A JavaScript string is modelled as a \<^typ>\<open>string\<close>: one \<^typ>\<open>char\<close> for each code
  unit, for the code units below 256. The functions below are the methods of
  \<^verbatim>\<open>String.prototype\<close> and \<^verbatim>\<open>Array.prototype\<close> that \<^verbatim>\<open>bin/come.js\<close> calls.
\<close>

abbreviation newline :: char where
  "newline \<equiv> CHR 0x0A"

abbreviation backtick :: char where
  "backtick \<equiv> CHR 0x60"

abbreviation backslash :: char where
  "backslash \<equiv> CHR 0x5C"

abbreviation dquote :: char where
  "dquote \<equiv> CHR 0x22"

definition isWhiteSpace :: "char \<Rightarrow> bool" where
  \<comment> \<open>the white space and line terminators \<^verbatim>\<open>trim\<close> strips: TAB, LF, VT, FF, CR, SP, NBSP\<close>
  "isWhiteSpace c \<longleftrightarrow>
     c = CHR 0x09 \<or> c = CHR 0x0A \<or> c = CHR 0x0B \<or> c = CHR 0x0C \<or> c = CHR 0x0D \<or>
     c = CHR 0x20 \<or> c = CHR 0xA0"

definition trim :: "string \<Rightarrow> string" where
  "trim s = rev (dropWhile isWhiteSpace (rev (dropWhile isWhiteSpace s)))"

definition startsWith :: "string \<Rightarrow> string \<Rightarrow> bool" where
  "startsWith s t \<longleftrightarrow> take (length t) s = t"

definition endsWith :: "string \<Rightarrow> string \<Rightarrow> bool" where
  "endsWith s t \<longleftrightarrow> length t \<le> length s \<and> drop (length s - length t) s = t"

fun includes_str :: "string \<Rightarrow> string \<Rightarrow> bool" where
  "includes_str [] t \<longleftrightarrow> t = []"
| "includes_str (c # s) t \<longleftrightarrow> startsWith (c # s) t \<or> includes_str s t"

fun split_newline :: "string \<Rightarrow> string list" where
  \<comment> \<open>\<^verbatim>\<open>s.split("\n")\<close>: never empty, the empty string gives one empty line\<close>
  "split_newline [] = [] # []"
| "split_newline (c # s) =
     (if c = newline then [] # split_newline s
      else (case split_newline s of [] \<Rightarrow> [c] # [] | l # ls \<Rightarrow> (c # l) # ls))"

fun join_newline :: "string list \<Rightarrow> string" where
  \<comment> \<open>\<^verbatim>\<open>lines.join("\n")\<close>\<close>
  "join_newline [] = []"
| "join_newline [l] = l"
| "join_newline (l # ls) = l @ [newline] @ join_newline ls"

fun findIndex_from :: "nat \<Rightarrow> ('a \<Rightarrow> nat \<Rightarrow> bool) \<Rightarrow> 'a list \<Rightarrow> nat option" where
  "findIndex_from i P [] = None"
| "findIndex_from i P (x # xs) = (if P x i then Some i else findIndex_from (Suc i) P xs)"

definition findIndex :: "('a \<Rightarrow> nat \<Rightarrow> bool) \<Rightarrow> 'a list \<Rightarrow> nat option" where
  \<comment> \<open>\<^verbatim>\<open>xs.findIndex((x, idx) => ...)\<close>; \<^const>\<open>None\<close> stands for the result \<^verbatim>\<open>-1\<close>\<close>
  "findIndex P xs = findIndex_from 0 P xs"

definition slice :: "'a list \<Rightarrow> nat \<Rightarrow> nat \<Rightarrow> 'a list" where
  \<comment> \<open>\<^verbatim>\<open>xs.slice(a, b)\<close> for indices that are not negative\<close>
  "slice xs a b = take (b - a) (drop a xs)"

definition splice_insert :: "'a list \<Rightarrow> nat \<Rightarrow> 'a \<Rightarrow> 'a list" where
  \<comment> \<open>\<^verbatim>\<open>xs.splice(i, 0, x)\<close>: the array after inserting \<open>x\<close> before index \<open>i\<close>\<close>
  "splice_insert xs i x = take i xs @ [x] @ drop i xs"

fun decimal :: "nat \<Rightarrow> string" where
  \<comment> \<open>a number inside a template literal\<close>
  "decimal n =
     (if n < 10 then [''0123456789'' ! n]
      else decimal (n div 10) @ [''0123456789'' ! (n mod 10)])"

declare decimal.simps [simp del]

fun safeFilename :: "string \<Rightarrow> string" where
  \<comment> \<open>\<^verbatim>\<open>file.replace(/`/g, '\\`')\<close>\<close>
  "safeFilename [] = []"
| "safeFilename (c # s) =
     (if c = backtick then backslash # backtick # safeFilename s
      else c # safeFilename s)"

section \<open>The host: file system, path module, console\<close>

text \<open>
  The program runs on Node.js. What it takes from the host is modelled here: the errors
  of the \<^verbatim>\<open>fs\<close> calls, a file system, the functions of the \<^verbatim>\<open>path\<close> module (parameters
  of the model, since they depend on the platform), the clock, the package version and
  the two console streams.
\<close>

datatype errcode =
  ENOENT | EEXIST | EPERM | EACCES | EISDIR | ENOTDIR | EINVAL | ELOOP | EIO
  | ERR_INVALID_ARG_TYPE

datatype jserror = JsError (err_code: errcode) (err_message: string)

datatype node = RegularFile string | SymbolicLink string | Directory

datatype fsop =
  OpAccess string
  | OpReadFile string
  | OpWriteFile string
  | OpAppendFile string
  | OpCopyFile string string
  | OpLstat string
  | OpReadlink string
  | OpSymlink string string
  | OpUnlink string
  | OpRename string string

record host =
  platform :: string
  cwd :: string
  date_now :: nat
  pkg_version :: string
  path_join :: "string \<Rightarrow> string \<Rightarrow> string"
  path_isAbsolute :: "string \<Rightarrow> bool"
  path_relative :: "string \<Rightarrow> string \<Rightarrow> string"
  path_dirname :: "string \<Rightarrow> string"
  path_basename :: "string \<Rightarrow> string"
  link_dest :: "string \<Rightarrow> string \<Rightarrow> string"
  inject :: "fsop \<Rightarrow> jserror option"

text \<open>
  \<open>link_dest h p t\<close> is the path that a symbolic link at \<open>p\<close> with target text \<open>t\<close>
  denotes. \<open>inject h\<close> makes chosen \<^verbatim>\<open>fs\<close> calls fail (permissions, read-only media,
  a platform without symbolic links) whatever the file system holds. \<open>date_now h\<close> is
  what \<^verbatim>\<open>Date.now()\<close> returns, the same at every reading during one run.

  The file system maps a path to the node there. Parent directories are not modelled,
  a directory has no entries of its own, and only the last component of a path is
  followed when it is a symbolic link.
\<close>

datatype stream = Stdout | Stderr

record world =
  files :: "string \<rightharpoonup> node"
  console :: "(stream \<times> string) list"

datatype abort = Throw jserror | Exit nat

type_synonym 'a prog = "world \<Rightarrow> (abort + 'a) \<times> world"

definition io_return :: "'a \<Rightarrow> 'a prog" where
  "io_return x w = (Inr x, w)"

definition io_throw :: "jserror \<Rightarrow> 'a prog" where
  "io_throw e w = (Inl (Throw e), w)"

definition process_exit :: "nat \<Rightarrow> 'a prog" where
  "process_exit n w = (Inl (Exit n), w)"

definition io_bind :: "'a prog \<Rightarrow> ('a \<Rightarrow> 'b prog) \<Rightarrow> 'b prog" where
  "io_bind m k w = (case m w of (Inl a, w') \<Rightarrow> (Inl a, w') | (Inr x, w') \<Rightarrow> k x w')"

definition io_try :: "'a prog \<Rightarrow> (jserror + 'a) prog" where
  \<comment> \<open>the outcome of a \<^verbatim>\<open>try\<close> block, handed to its \<^verbatim>\<open>catch\<close>; an exit is not caught\<close>
  "io_try m w =
     (case m w of
        (Inl (Throw e), w') \<Rightarrow> (Inr (Inl e), w')
      | (Inl (Exit n), w') \<Rightarrow> (Inl (Exit n), w')
      | (Inr x, w') \<Rightarrow> (Inr (Inr x), w'))"

definition console_log :: "string \<Rightarrow> unit prog" where
  "console_log s w = (Inr (), w\<lparr>console := console w @ [(Stdout, s)]\<rparr>)"

definition console_error :: "string \<Rightarrow> unit prog" where
  "console_error s w = (Inr (), w\<lparr>console := console w @ [(Stderr, s)]\<rparr>)"

fun errname :: "errcode \<Rightarrow> string" where
  "errname ENOENT = ''ENOENT: no such file or directory''"
| "errname EEXIST = ''EEXIST: file already exists''"
| "errname EPERM = ''EPERM: operation not permitted''"
| "errname EACCES = ''EACCES: permission denied''"
| "errname EISDIR = ''EISDIR: illegal operation on a directory''"
| "errname ENOTDIR = ''ENOTDIR: not a directory''"
| "errname EINVAL = ''EINVAL: invalid argument''"
| "errname ELOOP = ''ELOOP: too many symbolic links encountered''"
| "errname EIO = ''EIO: i/o error''"
| "errname ERR_INVALID_ARG_TYPE = ''ERR_INVALID_ARG_TYPE''"

definition sys_error :: "errcode \<Rightarrow> string \<Rightarrow> string \<Rightarrow> jserror" where
  "sys_error c syscall p = JsError c (errname c @ '', '' @ syscall @ '' '' @ p)"

fun follow :: "host \<Rightarrow> (string \<rightharpoonup> node) \<Rightarrow> nat \<Rightarrow> string \<Rightarrow> string option" where
  \<comment> \<open>the path a name denotes, through at most \<open>n\<close> symbolic links\<close>
  "follow h fs 0 p = (case fs p of Some (SymbolicLink t) \<Rightarrow> None | _ \<Rightarrow> Some p)"
| "follow h fs (Suc n) p =
     (case fs p of Some (SymbolicLink t) \<Rightarrow> follow h fs n (link_dest h p t) | _ \<Rightarrow> Some p)"

definition resolve :: "host \<Rightarrow> (string \<rightharpoonup> node) \<Rightarrow> string \<Rightarrow> string option" where
  "resolve h fs p = follow h fs 40 p"

definition fs_call ::
  "host \<Rightarrow> fsop \<Rightarrow> ((string \<rightharpoonup> node) \<Rightarrow> jserror + 'a \<times> (string \<rightharpoonup> node)) \<Rightarrow> 'a prog" where
  \<comment> \<open>one awaited \<^verbatim>\<open>fs\<close> call: it fails as injected, or acts on the file system\<close>
  "fs_call h op f w =
     (case inject h op of
        Some e \<Rightarrow> (Inl (Throw e), w)
      | None \<Rightarrow>
          (case f (files w) of
             Inl e \<Rightarrow> (Inl (Throw e), w)
           | Inr (x, fs') \<Rightarrow> (Inr x, w\<lparr>files := fs'\<rparr>)))"

definition read_node :: "host \<Rightarrow> (string \<rightharpoonup> node) \<Rightarrow> string \<Rightarrow> string \<Rightarrow> jserror + string" where
  "read_node h fs syscall p =
     (case resolve h fs p of
        None \<Rightarrow> Inl (sys_error ELOOP syscall p)
      | Some q \<Rightarrow>
          (case fs q of
             None \<Rightarrow> Inl (sys_error ENOENT syscall p)
           | Some Directory \<Rightarrow> Inl (sys_error EISDIR syscall p)
           | Some (SymbolicLink t) \<Rightarrow> Inl (sys_error ELOOP syscall p)
           | Some (RegularFile c) \<Rightarrow> Inr c))"

definition write_node ::
  "host \<Rightarrow> (string \<rightharpoonup> node) \<Rightarrow> string \<Rightarrow> string \<Rightarrow> (string \<Rightarrow> string) \<Rightarrow>
   jserror + unit \<times> (string \<rightharpoonup> node)" where
  \<comment> \<open>open for writing (creating the file when absent) and store \<open>f\<close> of the old bytes\<close>
  "write_node h fs syscall p f =
     (case resolve h fs p of
        None \<Rightarrow> Inl (sys_error ELOOP syscall p)
      | Some q \<Rightarrow>
          (case fs q of
             None \<Rightarrow> Inr ((), fs(q \<mapsto> RegularFile (f [])))
           | Some Directory \<Rightarrow> Inl (sys_error EISDIR syscall p)
           | Some (SymbolicLink t) \<Rightarrow> Inl (sys_error ELOOP syscall p)
           | Some (RegularFile c) \<Rightarrow> Inr ((), fs(q \<mapsto> RegularFile (f c)))))"

definition fs_access :: "host \<Rightarrow> string \<Rightarrow> unit prog" where
  "fs_access h p =
     fs_call h (OpAccess p) (\<lambda>fs.
       case resolve h fs p of
         None \<Rightarrow> Inl (sys_error ELOOP ''access'' p)
       | Some q \<Rightarrow>
           (case fs q of None \<Rightarrow> Inl (sys_error ENOENT ''access'' p) | Some n \<Rightarrow> Inr ((), fs)))"

definition fs_readFile :: "host \<Rightarrow> string \<Rightarrow> string prog" where
  "fs_readFile h p =
     fs_call h (OpReadFile p) (\<lambda>fs.
       case read_node h fs ''open'' p of Inl e \<Rightarrow> Inl e | Inr c \<Rightarrow> Inr (c, fs))"

definition fs_writeFile :: "host \<Rightarrow> string \<Rightarrow> string \<Rightarrow> unit prog" where
  "fs_writeFile h p data = fs_call h (OpWriteFile p) (\<lambda>fs. write_node h fs ''open'' p (\<lambda>old. data))"

definition fs_appendFile :: "host \<Rightarrow> string \<Rightarrow> string \<Rightarrow> unit prog" where
  "fs_appendFile h p data =
     fs_call h (OpAppendFile p) (\<lambda>fs. write_node h fs ''open'' p (\<lambda>old. old @ data))"

definition fs_copyFile :: "host \<Rightarrow> string \<Rightarrow> string \<Rightarrow> unit prog" where
  "fs_copyFile h src dest =
     fs_call h (OpCopyFile src dest) (\<lambda>fs.
       case read_node h fs ''copyfile'' src of
         Inl e \<Rightarrow> Inl e
       | Inr c \<Rightarrow> write_node h fs ''copyfile'' dest (\<lambda>old. c))"

definition fs_lstat :: "host \<Rightarrow> string \<Rightarrow> node prog" where
  "fs_lstat h p =
     fs_call h (OpLstat p) (\<lambda>fs.
       case fs p of None \<Rightarrow> Inl (sys_error ENOENT ''lstat'' p) | Some n \<Rightarrow> Inr (n, fs))"

definition isSymbolicLink :: "node \<Rightarrow> bool" where
  "isSymbolicLink n = (case n of SymbolicLink t \<Rightarrow> True | _ \<Rightarrow> False)"

definition fs_readlink :: "host \<Rightarrow> string \<Rightarrow> string prog" where
  "fs_readlink h p =
     fs_call h (OpReadlink p) (\<lambda>fs.
       case fs p of
         None \<Rightarrow> Inl (sys_error ENOENT ''readlink'' p)
       | Some (SymbolicLink t) \<Rightarrow> Inr (t, fs)
       | Some n \<Rightarrow> Inl (sys_error EINVAL ''readlink'' p))"

definition fs_symlink :: "host \<Rightarrow> string \<Rightarrow> string \<Rightarrow> unit prog" where
  "fs_symlink h target p =
     fs_call h (OpSymlink target p) (\<lambda>fs.
       case fs p of
         None \<Rightarrow> Inr ((), fs(p \<mapsto> SymbolicLink target))
       | Some n \<Rightarrow> Inl (sys_error EEXIST ''symlink'' p))"

definition fs_unlink :: "host \<Rightarrow> string \<Rightarrow> unit prog" where
  "fs_unlink h p =
     fs_call h (OpUnlink p) (\<lambda>fs.
       case fs p of
         None \<Rightarrow> Inl (sys_error ENOENT ''unlink'' p)
       | Some Directory \<Rightarrow> Inl (sys_error EISDIR ''unlink'' p)
       | Some n \<Rightarrow> Inr ((), fs(p := None)))"

definition fs_rename :: "host \<Rightarrow> string \<Rightarrow> string \<Rightarrow> unit prog" where
  "fs_rename h old new =
     fs_call h (OpRename old new) (\<lambda>fs.
       case fs old of
         None \<Rightarrow> Inl (sys_error ENOENT ''rename'' old)
       | Some n \<Rightarrow>
           (if n \<noteq> Directory \<and> fs new = Some Directory then Inl (sys_error EISDIR ''rename'' old)
            else if n = Directory \<and> fs new \<noteq> None \<and> fs new \<noteq> Some Directory
              then Inl (sys_error ENOTDIR ''rename'' old)
            else Inr ((), (fs(old := None))(new \<mapsto> n))))"

section \<open>The program: \<^verbatim>\<open>bin/come.js\<close>\<close>

record options =
  outputFile :: "string option"
  absolute :: bool
  dryRun :: bool
  verbose :: bool
  showHelp :: bool
  showVersion :: bool

text \<open>
  The source keeps the options in a module variable that only the argument loop
  writes; the model passes them. \<open>outputFile\<close> (the field \<^verbatim>\<open>output\<close>) is \<^const>\<open>None\<close> when the source holds
  \<^verbatim>\<open>undefined\<close> there.
\<close>

definition default_options :: options where
  "default_options =
     \<lparr>outputFile = Some ''AGENTS.md'', absolute = False, dryRun = False, verbose = False,
      showHelp = False, showVersion = False\<rparr>"

datatype level = Info | Verbose

definition io_seq :: "unit prog \<Rightarrow> 'a prog \<Rightarrow> 'a prog" where
  "io_seq m n = io_bind m (\<lambda>u. n)"

definition log :: "options \<Rightarrow> string \<Rightarrow> level \<Rightarrow> unit prog" where
  "log opts message lvl =
     (if lvl = Verbose \<and> \<not> verbose opts then io_return () else console_log message)"

definition logVerbose :: "options \<Rightarrow> string \<Rightarrow> unit prog" where
  "logVerbose opts message = log opts message Verbose"

definition js_bool :: "bool \<Rightarrow> string" where
  "js_bool b = (if b then ''true'' else ''false'')"

definition createSymlinkWithFallback ::
  "host \<Rightarrow> options \<Rightarrow> string \<Rightarrow> string \<Rightarrow> string \<Rightarrow> unit prog" where
  "createSymlinkWithFallback h opts target linkPath fallbackSourcePath =
     io_bind
       (io_try
          (io_seq (fs_symlink h target linkPath)
             (logVerbose opts (''Created symlink: '' @ linkPath @ '' -> '' @ target))))
       (\<lambda>r. case r of
          Inr u \<Rightarrow> io_return ()
        | Inl err \<Rightarrow>
            if platform h = ''win32'' \<and> (err_code err = EPERM \<or> err_code err = ENOENT) then
              io_seq
                (log opts
                   (''Symlink failed on Windows, falling back to copy mode for '' @
                    path_basename h linkPath) Info)
                (io_seq (logVerbose opts (''Error: '' @ err_message err))
                   (io_seq (fs_copyFile h fallbackSourcePath linkPath)
                      (logVerbose opts
                         (''Copied file: '' @ fallbackSourcePath @ '' -> '' @ linkPath))))
            else
              io_seq (logVerbose opts (''Symlink error: '' @ err_message err)) (io_throw err))"

definition ignoreBlockStart :: string where
  "ignoreBlockStart = ''# coalesce-memory symlinked files''"

definition ignoreBlockEnd :: string where
  "ignoreBlockEnd = ''# end coalesce-memory''"

definition addToGitignore :: "host \<Rightarrow> options \<Rightarrow> string \<Rightarrow> string \<Rightarrow> unit prog" where
  "addToGitignore h opts dir filename =
     (if dryRun opts then
        logVerbose opts (''[dry-run] Would add '' @ filename @ '' to .gitignore'')
      else
        io_seq (logVerbose opts (''Processing .gitignore for '' @ filename))
          (let gitignorePath = path_join h dir ''.gitignore'' in
           io_bind (io_try (fs_readFile h gitignorePath))
             (\<lambda>r. case r of
                Inl e \<Rightarrow>
                  (let block =
                     ignoreBlockStart @ [newline] @ filename @ [newline] @ ignoreBlockEnd @ [newline]
                   in
                   io_seq (fs_writeFile h gitignorePath block)
                     (io_seq
                        (log opts
                           (''Created .gitignore with coalesce-memory block and added '' @ filename)
                           Info)
                        (logVerbose opts
                           (''Added block: '' @ ignoreBlockStart @ '' ... '' @ ignoreBlockEnd))))
              | Inr content \<Rightarrow>
                  (let lines = split_newline content;
                       startIdx = findIndex (\<lambda>line idx. trim line = ignoreBlockStart) lines;
                       endIdx =
                         (case startIdx of
                            None \<Rightarrow> None
                          | Some s \<Rightarrow>
                              findIndex (\<lambda>line idx. idx > s \<and> trim line = ignoreBlockEnd) lines)
                   in
                   case (startIdx, endIdx) of
                     (Some s, Some e) \<Rightarrow>
                       (let blockEntries = slice lines (s + 1) e in
                        if list_ex (\<lambda>line. trim line = filename) blockEntries then io_return ()
                        else
                          io_seq
                            (fs_writeFile h gitignorePath
                               (join_newline (splice_insert lines e filename)))
                            (io_seq (logVerbose opts (''Added '' @ filename @ '' to .gitignore''))
                               (logVerbose opts
                                  (''Updated existing block at lines '' @ decimal (s + 1) @ ''-'' @
                                   decimal (e + 1)))))
                   | _ \<Rightarrow>
                       (let separator = (if length content > 0 then [newline, newline] else []);
                            block =
                              separator @ ignoreBlockStart @ [newline] @ filename @ [newline] @
                              ignoreBlockEnd @ [newline]
                        in
                        io_seq (fs_appendFile h gitignorePath block)
                          (io_seq
                             (log opts
                                (''Added '' @ filename @ '' to .gitignore in coalesce-memory block'')
                                Info)
                             (logVerbose opts
                                (''Created new block: '' @ ignoreBlockStart @ '' ... '' @
                                 ignoreBlockEnd))))))))"

definition listedInBlock :: "string \<Rightarrow> string \<Rightarrow> bool" where
  \<comment> \<open>the test of \<open>addToGitignore\<close> on the text of the ignore file that makes it return
    without writing: the block is there and one of its entries trims to the name\<close>
  "listedInBlock filename content =
     (let lines = split_newline content;
          startIdx = findIndex (\<lambda>line idx. trim line = ignoreBlockStart) lines;
          endIdx =
            (case startIdx of
               None \<Rightarrow> None
             | Some s \<Rightarrow> findIndex (\<lambda>line idx. idx > s \<and> trim line = ignoreBlockEnd) lines)
      in
      case (startIdx, endIdx) of
        (Some s, Some e) \<Rightarrow> list_ex (\<lambda>line. trim line = filename) (slice lines (s + 1) e)
      | _ \<Rightarrow> False)"

datatype switch_case =
  CaseHelp | CaseVersion | CaseOutput | CaseAbsolute | CaseDryRun | CaseVerbose | CaseDefault

definition switch_arg :: "string \<Rightarrow> switch_case" where
  \<comment> \<open>the \<^verbatim>\<open>case\<close> label that \<^verbatim>\<open>switch (arg)\<close> selects\<close>
  "switch_arg arg =
     (if arg = ''-h'' \<or> arg = ''--help'' then CaseHelp
      else if arg = ''--version'' then CaseVersion
      else if arg = ''-o'' \<or> arg = ''--output'' then CaseOutput
      else if arg = ''--absolute'' then CaseAbsolute
      else if arg = ''--dry-run'' then CaseDryRun
      else if arg = ''-v'' \<or> arg = ''--verbose'' then CaseVerbose
      else CaseDefault)"

fun parseArgs :: "string list \<Rightarrow> options \<times> string list \<Rightarrow> (options \<times> string list) prog" where
  \<comment> \<open>the argument loop; \<^verbatim>\<open>args[++i]\<close> past the end is \<^verbatim>\<open>undefined\<close>\<close>
  "parseArgs [] acc = io_return acc"
| "parseArgs (arg # rest) (opts, filesToProcess) =
     (case switch_arg arg of
        CaseHelp \<Rightarrow> parseArgs rest (opts\<lparr>showHelp := True\<rparr>, filesToProcess)
      | CaseVersion \<Rightarrow> parseArgs rest (opts\<lparr>showVersion := True\<rparr>, filesToProcess)
      | CaseOutput \<Rightarrow>
          (case rest of
             [] \<Rightarrow> io_return (opts\<lparr>outputFile := None\<rparr>, filesToProcess)
           | v # rest' \<Rightarrow> parseArgs rest' (opts\<lparr>outputFile := Some v\<rparr>, filesToProcess))
      | CaseAbsolute \<Rightarrow> parseArgs rest (opts\<lparr>absolute := True\<rparr>, filesToProcess)
      | CaseDryRun \<Rightarrow> parseArgs rest (opts\<lparr>dryRun := True\<rparr>, filesToProcess)
      | CaseVerbose \<Rightarrow> parseArgs rest (opts\<lparr>verbose := True\<rparr>, filesToProcess)
      | CaseDefault \<Rightarrow>
          if startsWith arg ''-'' then
            io_seq (console_error (''Unknown option: '' @ arg)) (process_exit 1)
          else parseArgs rest (opts, filesToProcess @ [arg]))"

definition showUsage :: "unit prog" where
  "showUsage =
     io_seq (console_log ''Usage: come [options] <file1.md> [file2.md] [...]'')
    (io_seq (console_log [])
    (io_seq (console_log ''Options:'')
    (io_seq (console_log ''  -h, --help       display help information'')
    (io_seq (console_log ''      --version    display version'')
    (io_seq (console_log ''  -o, --output     unified output file (default: AGENTS.md)'')
    (io_seq (console_log ''      --absolute   use absolute paths for symlink targets'')
    (io_seq (console_log ''      --dry-run    show actions without making changes'')
            (console_log ''  -v, --verbose    enable verbose logging''))))))))"

definition usage_lines :: "(stream \<times> string) list" where
  \<comment> \<open>the lines that \<open>showUsage\<close> prints\<close>
  "usage_lines =
     [(Stdout, ''Usage: come [options] <file1.md> [file2.md] [...]''),
      (Stdout, []),
      (Stdout, ''Options:''),
      (Stdout, ''  -h, --help       display help information''),
      (Stdout, ''      --version    display version''),
      (Stdout, ''  -o, --output     unified output file (default: AGENTS.md)''),
      (Stdout, ''      --absolute   use absolute paths for symlink targets''),
      (Stdout, ''      --dry-run    show actions without making changes''),
      (Stdout, ''  -v, --verbose    enable verbose logging'')]"

definition ensureUnified :: "host \<Rightarrow> options \<Rightarrow> string \<Rightarrow> string \<Rightarrow> unit prog" where
  \<comment> \<open>step 1: ensure the unified file exists\<close>
  "ensureUnified h opts unified unifiedPath =
     (if \<not> dryRun opts then
        io_bind
          (io_try
             (io_seq (fs_access h unifiedPath)
                (logVerbose opts (''Unified file '' @ unified @ '' already exists''))))
          (\<lambda>r. case r of
             Inr u \<Rightarrow> io_return ()
           | Inl e \<Rightarrow>
               io_seq (fs_writeFile h unifiedPath [])
                 (logVerbose opts (''Created empty unified file: '' @ unified)))
      else logVerbose opts (''[dry-run] Would ensure unified file exists: '' @ unified))"

definition expectedTarget :: "host \<Rightarrow> options \<Rightarrow> string \<Rightarrow> string \<Rightarrow> string" where
  \<comment> \<open>\<^verbatim>\<open>options.absolute ? unifiedPath : path.relative(path.dirname(filePath), unifiedPath)\<close>\<close>
  "expectedTarget h opts filePath unifiedPath =
     (if absolute opts then unifiedPath
      else path_relative h (path_dirname h filePath) unifiedPath)"

definition blockStart :: "string \<Rightarrow> string" where
  "blockStart file = [backtick] @ ''>>> '' @ safeFilename file @ [backtick]"

definition blockEnd :: "string \<Rightarrow> string" where
  "blockEnd file = [backtick] @ ''<<< '' @ safeFilename file @ [backtick]"

definition mergeContents ::
  "host \<Rightarrow> options \<Rightarrow> string \<Rightarrow> string \<Rightarrow> string \<Rightarrow> string \<Rightarrow> unit prog" where
  \<comment> \<open>step a: merge the contents of the file into the unified file\<close>
  "mergeContents h opts unified unifiedPath file filePath =
     io_bind (fs_readFile h filePath) (\<lambda>content.
     io_bind (fs_readFile h unifiedPath) (\<lambda>unifiedTx.
       if \<not> includes_str unifiedTx (blockStart file) then
         (let separator =
            (if length unifiedTx > 0 \<and> \<not> endsWith unifiedTx [newline, newline]
             then [newline, newline] else [])
          in
          io_seq
            (if \<not> dryRun opts then
               fs_appendFile h unifiedPath
                 (separator @ blockStart file @ [newline] @ trim content @ [newline] @
                  blockEnd file @ [newline])
             else io_return ())
            (io_seq
               (log opts
                  ((if dryRun opts then ''[dry-run] Would merge'' else ''Merged'') @ '' '' @ file @
                   '' into '' @ unified) Info)
               (logVerbose opts (''Block markers: '' @ blockStart file @ '' ... '' @ blockEnd file))))
       else
         io_seq
           (logVerbose opts
              (''Block for '' @ file @ '' already exists in '' @ unified @ '', skipping merge''))
           (logVerbose opts (''Found existing block: '' @ blockStart file))))"

definition backupPathOf :: "host \<Rightarrow> string \<Rightarrow> string" where
  \<comment> \<open>\<^verbatim>\<open>`${filePath}.backup-${Date.now()}`\<close>\<close>
  "backupPathOf h filePath = filePath @ ''.backup-'' @ decimal (date_now h)"

definition replaceWithSymlink ::
  "host \<Rightarrow> options \<Rightarrow> string \<Rightarrow> string \<Rightarrow> string \<Rightarrow> string \<Rightarrow> unit prog" where
  \<comment> \<open>step b: replace the original file with a symlink, with rollback\<close>
  "replaceWithSymlink h opts unified unifiedPath file filePath =
     (let symlinkTarget = expectedTarget h opts filePath unifiedPath in
      io_seq
        (if \<not> dryRun opts then
           (let backupPath = backupPathOf h filePath in
            io_bind
              (io_try
                 (io_seq (fs_rename h filePath backupPath)
                    (io_seq (createSymlinkWithFallback h opts symlinkTarget filePath unifiedPath)
                       (fs_unlink h backupPath))))
              (\<lambda>r. case r of
                 Inr u \<Rightarrow> io_return ()
               | Inl symlinkErr \<Rightarrow>
                   io_bind (io_try (fs_rename h backupPath filePath))
                     (\<lambda>r2. case r2 of
                        Inl rollbackErr \<Rightarrow>
                          io_seq
                            (console_error
                               (''Critical error: Failed to rollback '' @ file @ ''. Backup at '' @
                                backupPath))
                            (io_throw rollbackErr)
                      | Inr u \<Rightarrow> io_throw symlinkErr)))
         else io_return ())
        (io_seq
           (log opts
              ((if dryRun opts then ''[dry-run] Would replace'' else ''Replaced'') @ '' '' @ file @
               '' with a symlink to '' @ unified) Info)
           (logVerbose opts (''Symlink target: '' @ symlinkTarget))))"

definition processFile :: "host \<Rightarrow> options \<Rightarrow> string \<Rightarrow> string \<Rightarrow> string \<Rightarrow> unit prog" where
  \<comment> \<open>the body of the loop over the file arguments\<close>
  "processFile h opts unified unifiedPath file =
     (if file = unified then
        logVerbose opts (''Skipping '' @ file @ '' (the unified file itself)'')
      else
        io_seq (logVerbose opts (''Processing file: '' @ file))
          (let filePath = path_join h (cwd h) file in
           io_bind (io_try (fs_lstat h filePath))
             (\<lambda>r. case r of
                Inl e \<Rightarrow>
                  (let symlinkTarget = expectedTarget h opts filePath unifiedPath in
                   io_seq
                     (if \<not> dryRun opts then
                        createSymlinkWithFallback h opts symlinkTarget filePath unifiedPath
                      else io_return ())
                     (io_seq
                        (log opts
                           ((if dryRun opts then ''[dry-run] Would create'' else ''Created'') @
                            '' symlink for non-existent file: '' @ file) Info)
                        (io_seq (logVerbose opts (''Symlink target: '' @ symlinkTarget))
                           (addToGitignore h opts (cwd h) file))))
              | Inr stat \<Rightarrow>
                  if isSymbolicLink stat then
                    io_bind (fs_readlink h filePath) (\<lambda>currentTarget.
                      let expected = expectedTarget h opts filePath unifiedPath in
                      io_seq
                        (if currentTarget \<noteq> expected then
                           io_seq
                             (log opts
                                (''Symlink '' @ file @ '' points to wrong target ('' @ currentTarget @
                                 ''), updating to '' @ expected) Info)
                             (io_seq (logVerbose opts (''Expected target: '' @ expected))
                                (io_seq
                                   (if \<not> dryRun opts then
                                      io_seq (fs_unlink h filePath)
                                        (createSymlinkWithFallback h opts expected filePath
                                           unifiedPath)
                                    else io_return ())
                                   (log opts
                                      ((if dryRun opts then ''[dry-run] Would update''
                                        else ''Updated'') @ '' symlink target for '' @ file) Info)))
                         else
                           io_seq
                             (logVerbose opts
                                (''Skipping '' @ file @ '' (already a symlink with correct target)''))
                             (logVerbose opts (''Current target: '' @ currentTarget)))
                        (addToGitignore h opts (cwd h) file))
                  else
                    io_seq (mergeContents h opts unified unifiedPath file filePath)
                      (io_seq (replaceWithSymlink h opts unified unifiedPath file filePath)
                         (addToGitignore h opts (cwd h) file)))))"

fun processFiles ::
  "host \<Rightarrow> options \<Rightarrow> string \<Rightarrow> string \<Rightarrow> string list \<Rightarrow> unit prog" where
  \<comment> \<open>step 2: \<^verbatim>\<open>for (const file of filesToProcess)\<close>\<close>
  "processFiles h opts unified unifiedPath [] = io_return ()"
| "processFiles h opts unified unifiedPath (file # rest) =
     io_seq (processFile h opts unified unifiedPath file)
       (processFiles h opts unified unifiedPath rest)"

definition invalid_path_argument :: jserror where
  \<comment> \<open>what \<^verbatim>\<open>path.isAbsolute(undefined)\<close> throws\<close>
  "invalid_path_argument =
     JsError ERR_INVALID_ARG_TYPE
       (''The '' @ [dquote] @ ''path'' @ [dquote] @
        '' argument must be of type string. Received undefined'')"

definition run :: "host \<Rightarrow> options \<Rightarrow> string list \<Rightarrow> unit prog" where
  \<comment> \<open>the \<^verbatim>\<open>try\<close> block after the argument loop\<close>
  "run h opts filesToProcess =
     (if showHelp opts then io_seq showUsage (process_exit 0)
      else if showVersion opts then io_seq (console_log (pkg_version h)) (process_exit 0)
      else if length filesToProcess = 0 then
        io_seq (console_log ''No input files specified.'')
          (io_seq (console_log ''Usage: come [options] <file1.md> [file2.md] [...]'')
             (process_exit 0))
      else
        (case outputFile opts of
           None \<Rightarrow> io_throw invalid_path_argument
         | Some unified \<Rightarrow>
             (let unifiedPath =
                (if path_isAbsolute h unified then unified else path_join h (cwd h) unified)
              in
              io_seq
                (if dryRun opts then
                   console_log ''[dry-run] Dry run mode: no changes will be made.''
                 else io_return ())
                (io_seq
                   (logVerbose opts
                      (''Processing '' @ decimal (length filesToProcess) @
                       '' files with unified output: '' @ unified))
                   (io_seq
                      (logVerbose opts
                         (''Options: absolute='' @ js_bool (absolute opts) @ '', dryRun='' @
                          js_bool (dryRun opts) @ '', verbose='' @ js_bool (verbose opts)))
                      (io_seq (ensureUnified h opts unified unifiedPath)
                         (processFiles h opts unified unifiedPath filesToProcess)))))))"

definition main :: "host \<Rightarrow> string list \<Rightarrow> world \<Rightarrow> nat \<times> world" where
  \<comment> \<open>the program: the exit code and the world it leaves\<close>
  "main h argv w =
     (case io_bind (parseArgs argv (default_options, []))
             (\<lambda>(opts, filesToProcess). run h opts filesToProcess) w of
        (Inr u, w') \<Rightarrow> (0, w')
      | (Inl (Exit n), w') \<Rightarrow> (n, w')
      | (Inl (Throw err), w') \<Rightarrow> (1, snd (console_error (''Error: '' @ err_message err) w')))"

section \<open>A host for the examples\<close>

text \<open>
  The examples run on a host whose \<^verbatim>\<open>path\<close> functions do what the POSIX ones do on the
  paths that occur there: a working directory \<^verbatim>\<open>/repo\<close> and plain file names in it.
\<close>

definition plain_join :: "string \<Rightarrow> string \<Rightarrow> string" where
  "plain_join a b = a @ ''/'' @ b"

definition plain_isAbsolute :: "string \<Rightarrow> bool" where
  "plain_isAbsolute p = startsWith p ''/''"

definition plain_basename :: "string \<Rightarrow> string" where
  "plain_basename p = rev (takeWhile (\<lambda>c. c \<noteq> CHR ''/'') (rev p))"

definition plain_dirname :: "string \<Rightarrow> string" where
  "plain_dirname p = rev (drop 1 (dropWhile (\<lambda>c. c \<noteq> CHR ''/'') (rev p)))"

definition plain_relative :: "string \<Rightarrow> string \<Rightarrow> string" where
  "plain_relative from to = (if plain_dirname to = from then plain_basename to else to)"

definition plain_link_dest :: "string \<Rightarrow> string \<Rightarrow> string" where
  "plain_link_dest p t = (if plain_isAbsolute t then t else plain_join (plain_dirname p) t)"

definition plain_host :: host where
  "plain_host =
     \<lparr>platform = ''linux'', cwd = ''/repo'', date_now = 1700000000000, pkg_version = ''1.0.0'',
      path_join = plain_join, path_isAbsolute = plain_isAbsolute,
      path_relative = plain_relative, path_dirname = plain_dirname,
      path_basename = plain_basename, link_dest = plain_link_dest,
      inject = (\<lambda>op. None)\<rparr>"

definition empty_world :: world where
  "empty_world = \<lparr>files = Map.empty, console = []\<rparr>"

definition example_world :: world where
  \<comment> \<open>a unified file, and inputs in the four states: \<^verbatim>\<open>absent.md\<close> is not there\<close>
  "example_world =
     \<lparr>files =
        [''/repo/AGENTS.md'' \<mapsto> RegularFile ''# Agents'',
         ''/repo/good.md'' \<mapsto> SymbolicLink ''AGENTS.md'',
         ''/repo/stale.md'' \<mapsto> SymbolicLink ''OLD.md'',
         ''/repo/notes.md'' \<mapsto> RegularFile ''rules''],
      console = []\<rparr>"

definition eperm :: jserror where
  "eperm = JsError EPERM ''EPERM: operation not permitted, symlink''"

definition no_symlinks :: "fsop \<Rightarrow> jserror option" where
  \<comment> \<open>a host that refuses to create symbolic links\<close>
  "no_symlinks op = (case op of OpSymlink t p \<Rightarrow> Some eperm | _ \<Rightarrow> None)"

definition windows_host :: host where
  "windows_host = plain_host\<lparr>platform := ''win32'', inject := no_symlinks\<rparr>"

definition refusing_host :: host where
  "refusing_host = plain_host\<lparr>inject := no_symlinks\<rparr>"

definition eacces :: jserror where
  "eacces = JsError EACCES ''EACCES: permission denied, rename''"

definition no_symlinks_no_restore :: "fsop \<Rightarrow> jserror option" where
  \<comment> \<open>a host that refuses to create symbolic links and to move a backup back\<close>
  "no_symlinks_no_restore op =
     (case op of
        OpSymlink t p \<Rightarrow> Some eperm
      | OpRename a b \<Rightarrow> (if b = ''/repo/notes.md'' then Some eacces else None)
      | _ \<Rightarrow> None)"

definition stuck_host :: host where
  "stuck_host = plain_host\<lparr>inject := no_symlinks_no_restore\<rparr>"

definition truncated_world :: world where
  \<comment> \<open>an ignore file whose block has lost its end marker\<close>
  "truncated_world =
     \<lparr>files =
        [''/repo/.gitignore'' \<mapsto> RegularFile (ignoreBlockStart @ [newline] @ ''old.md'')],
      console = []\<rparr>"

definition block_world :: world where
  \<comment> \<open>an ignore file that names \<^verbatim>\<open>notes.md\<close> above the block and \<^verbatim>\<open>kept.md\<close> inside it\<close>
  "block_world =
     \<lparr>files =
        [''/repo/.gitignore'' \<mapsto>
           RegularFile
             (''notes.md'' @ [newline] @ ignoreBlockStart @ [newline] @ ''kept.md'' @ [newline] @
              ignoreBlockEnd @ [newline])],
      console = []\<rparr>"

definition after_first_run :: world where
  \<comment> \<open>what \<^verbatim>\<open>come " a.md"\<close> leaves when it starts in an empty directory\<close>
  "after_first_run =
     \<lparr>files =
        [''/repo/AGENTS.md'' \<mapsto> RegularFile [],
         ''/repo/ a.md'' \<mapsto> SymbolicLink ''AGENTS.md'',
         ''/repo/.gitignore'' \<mapsto>
           RegularFile
             (ignoreBlockStart @ [newline] @ '' a.md'' @ [newline] @ ignoreBlockEnd @ [newline])],
      console =
        [(Stdout, ''Created symlink for non-existent file:  a.md''),
         (Stdout, ''Created .gitignore with coalesce-memory block and added  a.md'')]\<rparr>"

section \<open>Block markers\<close>

lemma safeFilename_head: "safeFilename s \<noteq> backtick # t"
  by (cases s) auto

lemma safeFilename_inj: "safeFilename a = safeFilename b \<Longrightarrow> a = b"
proof (induction a arbitrary: b)
  case Nil
  then show ?case by (cases b) (auto split: if_splits)
next
  case (Cons x a)
  show ?case
  proof (cases b)
    case Nil
    with Cons.prems show ?thesis by (auto split: if_splits)
  next
    case (Cons y b')
    with Cons.prems Cons.IH [of b'] show ?thesis
      by (auto split: if_splits simp: safeFilename_head safeFilename_head [symmetric])
  qed
qed

text \<open>
  C4. Escaping every backtick of a file name with a backslash keeps the markers apart:
  two file names have the same start marker (or the same end marker) only when they are
  the same name. In particular the marker of a name with a backtick is never the marker
  of a name without one.
\<close>

theorem markers_unique:
  "(blockStart f = blockStart g \<longleftrightarrow> f = g) \<and> (blockEnd f = blockEnd g \<longleftrightarrow> f = g)"
  by (auto simp: blockStart_def blockEnd_def dest: safeFilename_inj)

section \<open>Argument parsing\<close>

text \<open>
  C9. The argument after \<^verbatim>\<open>-o\<close> or \<^verbatim>\<open>--output\<close> becomes the output path whatever it
  is, and parsing goes on after it. So \<^verbatim>\<open>-o --dry-run\<close> names the output file
  \<^verbatim>\<open>--dry-run\<close> and leaves every other option at its default: dry-run mode stays off
  and nothing is reported.
\<close>

theorem output_consumes_next:
  "parseArgs (''-o'' # v # rest) (opts, fl) = parseArgs rest (opts\<lparr>outputFile := Some v\<rparr>, fl) \<and>
   parseArgs (''--output'' # v # rest) (opts, fl) =
     parseArgs rest (opts\<lparr>outputFile := Some v\<rparr>, fl) \<and>
   parseArgs [''-o'', ''--dry-run''] (default_options, []) w =
     (Inr (default_options\<lparr>outputFile := Some ''--dry-run''\<rparr>, []), w)"
  by (simp add: switch_arg_def io_return_def)

section \<open>Dry run\<close>

lemma keeps_return: "files (snd (io_return x w)) = files w"
  by (simp add: io_return_def)

lemma keeps_throw: "files (snd (io_throw e w)) = files w"
  by (simp add: io_throw_def)

lemma keeps_exit: "files (snd (process_exit n w)) = files w"
  by (simp add: process_exit_def)

lemma keeps_console_log: "files (snd (console_log s w)) = files w"
  by (simp add: console_log_def)

lemma keeps_console_error: "files (snd (console_error s w)) = files w"
  by (simp add: console_error_def)

lemma keeps_log: "files (snd (log opts s lvl w)) = files w"
  by (simp add: log_def keeps_return keeps_console_log)

lemma keeps_logVerbose: "files (snd (logVerbose opts s w)) = files w"
  by (simp add: logVerbose_def keeps_log)

lemma keeps_bind:
  assumes "\<And>w. files (snd (m w)) = files w" and "\<And>x w. files (snd (k x w)) = files w"
  shows "files (snd (io_bind m k w)) = files w"
proof (cases "m w")
  case (Pair r w')
  with assms(1) [of w] have "files w' = files w" by simp
  with Pair assms(2) show ?thesis
    by (cases r) (simp_all add: io_bind_def)
qed

lemma keeps_seq:
  assumes "\<And>w. files (snd (m w)) = files w" and "\<And>w. files (snd (n w)) = files w"
  shows "files (snd (io_seq m n w)) = files w"
  unfolding io_seq_def by (rule keeps_bind) (rule assms)+

lemma keeps_try:
  assumes "\<And>w. files (snd (m w)) = files w"
  shows "files (snd (io_try m w)) = files w"
  using assms [of w] by (auto simp: io_try_def split: prod.splits sum.splits abort.splits)

lemma keeps_fs_call:
  assumes "\<And>fs x fs'. f fs = Inr (x, fs') \<Longrightarrow> fs' = fs"
  shows "files (snd (fs_call h op f w)) = files w"
  using assms by (auto simp: fs_call_def split: option.splits sum.splits)

lemma keeps_lstat: "files (snd (fs_lstat h p w)) = files w"
  unfolding fs_lstat_def by (rule keeps_fs_call) (auto split: option.splits)

lemma keeps_readlink: "files (snd (fs_readlink h p w)) = files w"
  unfolding fs_readlink_def by (rule keeps_fs_call) (auto split: option.splits node.splits)

lemma keeps_readFile: "files (snd (fs_readFile h p w)) = files w"
  unfolding fs_readFile_def by (rule keeps_fs_call) (auto split: sum.splits)

lemmas keeps_intros =
  keeps_return keeps_throw keeps_exit keeps_console_log keeps_console_error keeps_log
  keeps_logVerbose keeps_bind keeps_seq keeps_try keeps_lstat keeps_readlink keeps_readFile

lemma addToGitignore_dry: "dryRun opts \<Longrightarrow> files (snd (addToGitignore h opts d f w)) = files w"
  by (simp add: addToGitignore_def keeps_logVerbose)

lemma mergeContents_dry:
  "dryRun opts \<Longrightarrow> files (snd (mergeContents h opts u up f fp w)) = files w"
  unfolding mergeContents_def by (auto intro!: keeps_intros simp: Let_def)

lemma replaceWithSymlink_dry:
  "dryRun opts \<Longrightarrow> files (snd (replaceWithSymlink h opts u up f fp w)) = files w"
  unfolding replaceWithSymlink_def by (auto intro!: keeps_intros simp: Let_def)

lemma processFile_dry:
  "dryRun opts \<Longrightarrow> files (snd (processFile h opts u up f w)) = files w"
  unfolding processFile_def
  by (auto intro!: keeps_intros addToGitignore_dry mergeContents_dry replaceWithSymlink_dry
      simp: Let_def split: sum.splits)

lemma processFiles_dry:
  "dryRun opts \<Longrightarrow> files (snd (processFiles h opts u up fl w)) = files w"
  by (induction fl arbitrary: w) (auto intro!: keeps_intros processFile_dry)

lemma showUsage_keeps: "files (snd (showUsage w)) = files w"
  unfolding showUsage_def by (intro keeps_intros)

lemma ensureUnified_dry:
  "dryRun opts \<Longrightarrow> files (snd (ensureUnified h opts u up w)) = files w"
  by (simp add: ensureUnified_def keeps_logVerbose)

lemma keeps_if:
  assumes "c \<Longrightarrow> files (snd (a w)) = files w" and "\<not> c \<Longrightarrow> files (snd (b w)) = files w"
  shows "files (snd ((if c then a else b) w)) = files w"
  using assms by simp

lemma keeps_case_option:
  assumes "files (snd (a w)) = files w" and "\<And>v. files (snd (b v w)) = files w"
  shows "files (snd ((case x of None \<Rightarrow> a | Some v \<Rightarrow> b v) w)) = files w"
  using assms by (cases x) simp_all

lemma keeps_let:
  assumes "files (snd (f x w)) = files w"
  shows "files (snd ((let y = x in f y) w)) = files w"
  using assms by simp

lemma run_dry:
  assumes "dryRun opts"
  shows "files (snd (run h opts fl w)) = files w"
  unfolding run_def
  by (intro keeps_if keeps_case_option keeps_let keeps_intros showUsage_keeps
      ensureUnified_dry [OF assms] processFiles_dry [OF assms])

lemma parseArgs_keeps: "files (snd (parseArgs argv acc w)) = files w"
  by (induction argv acc arbitrary: w rule: parseArgs.induct)
    (auto intro!: keeps_intros split: switch_case.splits list.splits)

lemma parseArgs_world:
  "parseArgs argv acc w = (Inr r, w') \<Longrightarrow> w' = w"
proof (induction argv acc arbitrary: w rule: parseArgs.induct)
  case (1 acc)
  then show ?case by (simp add: io_return_def)
next
  case (2 arg rest opts fl)
  show ?case
  proof (cases "switch_arg arg")
    case CaseOutput
    with 2 show ?thesis by (cases rest) (auto simp: io_return_def)
  next
    case CaseDefault
    with 2 show ?thesis
      by (cases "startsWith arg ''-''")
        (auto simp: io_seq_def io_bind_def console_error_def process_exit_def)
  qed (use 2 in auto)
qed

text \<open>
  C5. When the parsed options have dry-run set, the run leaves the file system exactly
  as it found it: whatever the inputs are (absent, links with the right or a wrong
  target, regular files), whatever the host makes fail, and however the run ends.
\<close>

theorem dry_run_changes_no_file:
  assumes "fst (parseArgs argv (default_options, []) w) = Inr (opts, fl)" and "dryRun opts"
  shows "files (snd (main h argv w)) = files w"
proof -
  obtain r w' where p: "parseArgs argv (default_options, []) w = (r, w')"
    by (cases "parseArgs argv (default_options, []) w")
  with assms(1) have r: "r = Inr (opts, fl)" by simp
  from p r have "w' = w" by (auto dest: parseArgs_world)
  with p r have "io_bind (parseArgs argv (default_options, []))
      (\<lambda>(opts, filesToProcess). run h opts filesToProcess) w = run h opts fl w"
    by (simp add: io_bind_def)
  moreover have "files (snd (run h opts fl w)) = files w"
    using assms(2) by (rule run_dry)
  ultimately show ?thesis
    by (auto simp: main_def console_error_def split: prod.splits sum.splits abort.splits)
qed

theorem dry_run_changes_no_file_witness:
  "fst (parseArgs [''--dry-run'', ''absent.md'', ''good.md'', ''stale.md'', ''notes.md'']
          (default_options, []) example_world) =
     Inr (default_options\<lparr>dryRun := True\<rparr>, [''absent.md'', ''good.md'', ''stale.md'', ''notes.md'']) \<and>
   dryRun (default_options\<lparr>dryRun := True\<rparr>) \<and>
   files (snd (main plain_host
                 [''--dry-run'', ''absent.md'', ''good.md'', ''stale.md'', ''notes.md'']
                 example_world)) =
     files example_world"
proof -
  have p: "fst (parseArgs [''--dry-run'', ''absent.md'', ''good.md'', ''stale.md'', ''notes.md'']
          (default_options, []) example_world) =
     Inr (default_options\<lparr>dryRun := True\<rparr>, [''absent.md'', ''good.md'', ''stale.md'', ''notes.md''])"
    by (simp add: switch_arg_def startsWith_def io_return_def)
  have d: "dryRun (default_options\<lparr>dryRun := True\<rparr>)" by simp
  from p d dry_run_changes_no_file [OF p d, of plain_host] show ?thesis by simp
qed

section \<open>The link-creation primitive\<close>

lemma follow_not_link: "follow h fs n p = Some q \<Longrightarrow> fs q \<noteq> Some (SymbolicLink t)"
  by (induction n arbitrary: p) (auto split: option.splits node.splits)

lemma follow_update:
  "follow h fs n p = Some q \<Longrightarrow> follow h (fs(q \<mapsto> RegularFile c)) n p = Some q"
proof (induction n arbitrary: p)
  case 0
  then show ?case by (auto split: option.splits node.splits)
next
  case (Suc n)
  show ?case
  proof (cases "\<exists>t. fs p = Some (SymbolicLink t)")
    case True
    then obtain t where t: "fs p = Some (SymbolicLink t)" by blast
    with Suc.prems have f: "follow h fs n (link_dest h p t) = Some q" by simp
    from Suc.prems follow_not_link [of h fs "Suc n" p q t] t have "p \<noteq> q" by auto
    with t Suc.IH [OF f] show ?thesis by simp
  next
    case False
    with Suc.prems have "q = p" by (auto split: option.splits node.splits)
    then show ?thesis by simp
  qed
qed

lemma write_then_read:
  assumes "write_node h fs s p (\<lambda>old. c) = Inr ((), fs')"
  shows "read_node h fs' s' p = Inr c"
proof -
  from assms obtain q where q: "resolve h fs p = Some q" and fs': "fs' = fs(q \<mapsto> RegularFile c)"
    by (auto simp: write_node_def split: option.splits node.splits)
  from q have "resolve h fs' p = Some q"
    unfolding resolve_def fs' by (rule follow_update)
  then show ?thesis by (simp add: read_node_def fs')
qed

lemma fs_call_failure:
  "fst (fs_call h op f w) = Inl a \<Longrightarrow> fs_call h op f w = (Inl a, w)"
  by (auto simp: fs_call_def split: option.splits sum.splits)

lemma filter_stderr_log:
  "filter (\<lambda>l. fst l = Stderr) (console (snd (log opts s lvl w))) =
   filter (\<lambda>l. fst l = Stderr) (console w)"
  by (simp add: log_def io_return_def console_log_def)

text \<open>
  C8. Suppose the \<^verbatim>\<open>symlink\<close> call of the link-creation primitive fails with \<open>err\<close>.
  On the platform \<^verbatim>\<open>win32\<close> with code \<^verbatim>\<open>EPERM\<close> or \<^verbatim>\<open>ENOENT\<close>, when the fallback
  source can be read and the copy goes through, the primitive succeeds, the link path
  then reads as the bytes of the source, the fallback is announced on standard output,
  and nothing is written to the error stream. In every other case (another code, or
  another platform) the primitive throws \<open>err\<close> itself and leaves the file system as it
  was.
\<close>

theorem symlink_failure_fallback:
  assumes fail: "fst (fs_symlink h target linkPath w) = Inl (Throw err)"
  shows
    "(platform h = ''win32'' \<and> (err_code err = EPERM \<or> err_code err = ENOENT) \<longrightarrow>
        read_node h (files w) ''copyfile'' src = Inr bytes \<longrightarrow>
        fst (fs_copyFile h src linkPath w) = Inr () \<longrightarrow>
        fst (createSymlinkWithFallback h opts target linkPath src w) = Inr () \<and>
        read_node h (files (snd (createSymlinkWithFallback h opts target linkPath src w)))
          ''open'' linkPath = Inr bytes \<and>
        (Stdout, ''Symlink failed on Windows, falling back to copy mode for '' @
                 path_basename h linkPath)
          \<in> set (console (snd (createSymlinkWithFallback h opts target linkPath src w))) \<and>
        filter (\<lambda>l. fst l = Stderr)
          (console (snd (createSymlinkWithFallback h opts target linkPath src w))) =
        filter (\<lambda>l. fst l = Stderr) (console w)) \<and>
     (\<not> (platform h = ''win32'' \<and> (err_code err = EPERM \<or> err_code err = ENOENT)) \<longrightarrow>
        fst (createSymlinkWithFallback h opts target linkPath src w) = Inl (Throw err) \<and>
        files (snd (createSymlinkWithFallback h opts target linkPath src w)) = files w)"
proof -
  from fail have sym: "fs_symlink h target linkPath w = (Inl (Throw err), w)"
    unfolding fs_symlink_def by (rule fs_call_failure)
  have attempt: "io_try (io_bind (fs_symlink h target linkPath) k) w = (Inr (Inl err), w)" for k
    by (simp add: io_try_def io_bind_def sym)
  have attempt_seq: "io_try (io_seq (fs_symlink h target linkPath) m) w = (Inr (Inl err), w)" for m
    by (simp add: io_seq_def attempt)
  show ?thesis
  proof (intro conjI impI)
    assume win: "platform h = ''win32'' \<and> (err_code err = EPERM \<or> err_code err = ENOENT)"
      and rd: "read_node h (files w) ''copyfile'' src = Inr bytes"
      and cp: "fst (fs_copyFile h src linkPath w) = Inr ()"
    define w1 where "w1 = w\<lparr>console := console w @
      [(Stdout, ''Symlink failed on Windows, falling back to copy mode for '' @ path_basename h linkPath)]\<rparr>"
    define w2 where "w2 = snd (logVerbose opts (''Error: '' @ err_message err) w1)"
    have w2: "logVerbose opts (''Error: '' @ err_message err) w1 = (Inr (), w2)"
      "files w2 = files w" "set (console w1) \<subseteq> set (console w2)"
      "filter (\<lambda>l. fst l = Stderr) (console w2) = filter (\<lambda>l. fst l = Stderr) (console w)"
      by (auto simp: w2_def w1_def logVerbose_def log_def io_return_def console_log_def
          simp del: append_Cons)
    from cp rd obtain fs' where
      wr: "write_node h (files w) ''copyfile'' linkPath (\<lambda>old. bytes) = Inr ((), fs')"
      and inj: "inject h (OpCopyFile src linkPath) = None"
      by (auto simp: fs_copyFile_def fs_call_def split: option.splits sum.splits)
    have cp2: "fs_copyFile h src linkPath w2 = (Inr (), w2\<lparr>files := fs'\<rparr>)"
      using wr inj rd by (simp add: fs_copyFile_def fs_call_def w2)
    define w3 where "w3 = snd (logVerbose opts (''Copied file: '' @ src @ '' -> '' @ linkPath)
      (w2\<lparr>files := fs'\<rparr>))"
    have w3: "logVerbose opts (''Copied file: '' @ src @ '' -> '' @ linkPath) (w2\<lparr>files := fs'\<rparr>)
        = (Inr (), w3)"
      "files w3 = fs'" "set (console w2) \<subseteq> set (console w3)"
      "filter (\<lambda>l. fst l = Stderr) (console w3) = filter (\<lambda>l. fst l = Stderr) (console w2)"
      by (auto simp: w3_def logVerbose_def log_def io_return_def console_log_def
          simp del: append_Cons)
    have res: "createSymlinkWithFallback h opts target linkPath src w = (Inr (), w3)"
      using win
      by (simp add: createSymlinkWithFallback_def io_bind_def attempt io_seq_def log_def
          console_log_def w1_def [symmetric] w2 cp2 w3 del: append_Cons)
    show "fst (createSymlinkWithFallback h opts target linkPath src w) = Inr ()"
      by (simp add: res)
    show "read_node h (files (snd (createSymlinkWithFallback h opts target linkPath src w)))
          ''open'' linkPath = Inr bytes"
      using write_then_read [OF wr] by (simp add: res w3)
    show "(Stdout, ''Symlink failed on Windows, falling back to copy mode for '' @
                 path_basename h linkPath)
          \<in> set (console (snd (createSymlinkWithFallback h opts target linkPath src w)))"
      using w2(3) w3(3) by (auto simp: res w1_def)
    show "filter (\<lambda>l. fst l = Stderr)
          (console (snd (createSymlinkWithFallback h opts target linkPath src w))) =
        filter (\<lambda>l. fst l = Stderr) (console w)"
      by (simp add: res w3 w2)
  next
    assume nowin: "\<not> (platform h = ''win32'' \<and> (err_code err = EPERM \<or> err_code err = ENOENT))"
    have lv: "fst (logVerbose opts s w) = Inr () \<and> files (snd (logVerbose opts s w)) = files w" for s
      by (simp add: logVerbose_def log_def io_return_def console_log_def)
    have res: "createSymlinkWithFallback h opts target linkPath src w =
        io_seq (logVerbose opts (''Symlink error: '' @ err_message err)) (io_throw err) w"
      using nowin
      by (auto simp add: createSymlinkWithFallback_def io_bind_def attempt_seq simp del: append_Cons)
    show "fst (createSymlinkWithFallback h opts target linkPath src w) = Inl (Throw err)"
      unfolding res using lv [of "''Symlink error: '' @ err_message err"]
      by (auto simp: io_seq_def io_bind_def io_throw_def split: prod.splits sum.splits)
    show "files (snd (createSymlinkWithFallback h opts target linkPath src w)) = files w"
      unfolding res using lv [of "''Symlink error: '' @ err_message err"]
      by (auto simp: io_seq_def io_bind_def io_throw_def split: prod.splits sum.splits)
  qed
qed


lemma follow_end:
  "fs p = None \<Longrightarrow> follow h fs n p = Some p"
  "fs p = Some (RegularFile c) \<Longrightarrow> follow h fs n p = Some p"
  "fs p = Some Directory \<Longrightarrow> follow h fs n p = Some p"
  by (cases n; simp)+

lemma resolve_end:
  "fs p = None \<Longrightarrow> resolve h fs p = Some p"
  "fs p = Some (RegularFile c) \<Longrightarrow> resolve h fs p = Some p"
  "fs p = Some Directory \<Longrightarrow> resolve h fs p = Some p"
  by (simp_all add: resolve_def follow_end)

lemma resolve_link:
  assumes "fs p = Some (SymbolicLink t)"
  shows "resolve h fs p = follow h fs 39 (link_dest h p t)"
proof -
  have "follow h fs (Suc 39) p = follow h fs 39 (link_dest h p t)"
    using assms by (simp only: follow.simps option.case node.case)
  then show ?thesis by (simp add: resolve_def)
qed

lemmas host_simps =
  plain_host_def windows_host_def refusing_host_def no_symlinks_def plain_join_def
  plain_isAbsolute_def plain_basename_def plain_dirname_def plain_relative_def
  plain_link_dest_def startsWith_def

theorem symlink_failure_fallback_witness:
  "fst (fs_symlink windows_host ''AGENTS.md'' ''/repo/absent.md'' example_world) = Inl (Throw eperm) \<and>
   fst (createSymlinkWithFallback windows_host default_options ''AGENTS.md'' ''/repo/absent.md''
          ''/repo/AGENTS.md'' example_world) = Inr () \<and>
   read_node windows_host
     (files (snd (createSymlinkWithFallback windows_host default_options ''AGENTS.md''
                    ''/repo/absent.md'' ''/repo/AGENTS.md'' example_world)))
     ''open'' ''/repo/absent.md'' = Inr ''# Agents'' \<and>
   fst (fs_symlink refusing_host ''AGENTS.md'' ''/repo/absent.md'' example_world) = Inl (Throw eperm) \<and>
   fst (createSymlinkWithFallback refusing_host default_options ''AGENTS.md'' ''/repo/absent.md''
          ''/repo/AGENTS.md'' example_world) = Inl (Throw eperm) \<and>
   files (snd (createSymlinkWithFallback refusing_host default_options ''AGENTS.md''
                 ''/repo/absent.md'' ''/repo/AGENTS.md'' example_world)) = files example_world"
proof -
  have f1: "fst (fs_symlink windows_host ''AGENTS.md'' ''/repo/absent.md'' example_world) =
      Inl (Throw eperm)"
    by (simp add: fs_symlink_def fs_call_def host_simps)
  have f2: "fst (fs_symlink refusing_host ''AGENTS.md'' ''/repo/absent.md'' example_world) =
      Inl (Throw eperm)"
    by (simp add: fs_symlink_def fs_call_def host_simps)
  have win: "platform windows_host = ''win32'' \<and>
      (err_code eperm = EPERM \<or> err_code eperm = ENOENT)"
    by (simp add: host_simps eperm_def)
  have nowin: "\<not> (platform refusing_host = ''win32'' \<and>
      (err_code eperm = EPERM \<or> err_code eperm = ENOENT))"
    by (simp add: host_simps eperm_def)
  have rd: "read_node windows_host (files example_world) ''copyfile'' ''/repo/AGENTS.md'' =
      Inr ''# Agents''"
    by (simp add: read_node_def resolve_end example_world_def)
  have cp: "fst (fs_copyFile windows_host ''/repo/AGENTS.md'' ''/repo/absent.md'' example_world) =
      Inr ()"
    by (simp add: fs_copyFile_def fs_call_def read_node_def write_node_def resolve_end
        example_world_def host_simps)
  from symlink_failure_fallback [OF f1, of "''/repo/AGENTS.md''" "''# Agents''" default_options]
    symlink_failure_fallback [OF f2, of "''/repo/AGENTS.md''" "''# Agents''" default_options]
    f1 f2 win nowin rd cp
  show ?thesis by blast
qed

section \<open>Content merge\<close>

lemma startsWith_iff: "startsWith s t \<longleftrightarrow> (\<exists>post. s = t @ post)"
proof
  assume "startsWith s t"
  then have "s = t @ drop (length t) s"
    unfolding startsWith_def by (metis append_take_drop_id)
  then show "\<exists>post. s = t @ post" ..
next
  assume "\<exists>post. s = t @ post"
  then show "startsWith s t" by (auto simp: startsWith_def)
qed

lemma endsWith_iff: "endsWith s t \<longleftrightarrow> (\<exists>pre. s = pre @ t)"
proof
  assume "endsWith s t"
  then have "s = take (length s - length t) s @ t"
    unfolding endsWith_def by (metis append_take_drop_id)
  then show "\<exists>pre. s = pre @ t" ..
next
  assume "\<exists>pre. s = pre @ t"
  then show "endsWith s t" by (auto simp: endsWith_def)
qed

lemma includes_str_iff: "includes_str s t \<longleftrightarrow> (\<exists>pre post. s = pre @ t @ post)"
proof (induction s)
  case Nil
  then show ?case by auto
next
  case (Cons c s)
  show ?case
  proof
    assume "includes_str (c # s) t"
    then consider "startsWith (c # s) t" | "includes_str s t" by auto
    then show "\<exists>pre post. c # s = pre @ t @ post"
    proof cases
      case 1
      then obtain post where "c # s = t @ post" by (auto simp: startsWith_iff)
      then have "c # s = [] @ t @ post" by simp
      then show ?thesis by blast
    next
      case 2
      with Cons.IH obtain pre post where "s = pre @ t @ post" by auto
      then have "c # s = (c # pre) @ t @ post" by simp
      then show ?thesis by blast
    qed
  next
    assume "\<exists>pre post. c # s = pre @ t @ post"
    then obtain pre post where eq: "c # s = pre @ t @ post" by auto
    show "includes_str (c # s) t"
    proof (cases pre)
      case Nil
      with eq have "startsWith (c # s) t" by (auto simp: startsWith_iff)
      then show ?thesis by simp
    next
      case (Cons d pre')
      with eq have "s = pre' @ t @ post" by simp
      with Cons.IH have "includes_str s t" by auto
      then show ?thesis by simp
    qed
  qed
qed

lemma io_bind_ok: "fst (m w) = Inr x \<Longrightarrow> io_bind m k w = k x (snd (m w))"
  by (cases "m w") (simp add: io_bind_def)

lemma io_seq_ok: "fst (m w) = Inr () \<Longrightarrow> io_seq m n w = n (snd (m w))"
  by (simp add: io_seq_def io_bind_ok)

lemma io_bind_abort: "fst (m w) = Inl a \<Longrightarrow> io_bind m k w = (Inl a, snd (m w))"
  by (cases "m w") (simp add: io_bind_def)

lemma io_seq_abort: "fst (m w) = Inl a \<Longrightarrow> io_seq m n w = (Inl a, snd (m w))"
  by (simp add: io_seq_def io_bind_abort)

lemma log_ok: "fst (log opts s lvl w) = Inr ()"
  by (simp add: log_def io_return_def console_log_def)

lemma logVerbose_ok: "fst (logVerbose opts s w) = Inr ()"
  by (simp add: logVerbose_def log_ok)

lemma fs_readFile_world: "snd (fs_readFile h p w) = w"
  by (auto simp: fs_readFile_def fs_call_def split: option.splits sum.splits)

lemma fs_readFile_resolved:
  assumes "inject h (OpReadFile p) = None" and "resolve h (files w) p = Some q"
    and "files w q = Some (RegularFile c)"
  shows "fs_readFile h p w = (Inr c, w)"
  using assms by (simp add: fs_readFile_def fs_call_def read_node_def)

lemma fs_appendFile_resolved:
  assumes "inject h (OpAppendFile p) = None" and "resolve h (files w) p = Some q"
    and "files w q = Some (RegularFile c)"
  shows "fs_appendFile h p d w = (Inr (), w\<lparr>files := (files w)(q \<mapsto> RegularFile (c @ d))\<rparr>)"
  using assms by (simp add: fs_appendFile_def fs_call_def write_node_def)

lemma mergeContents_effect:
  assumes nodry: "\<not> dryRun opts"
    and rf: "fst (fs_readFile h filePath w) = Inr C"
    and inj_read: "inject h (OpReadFile unifiedPath) = None"
    and res: "resolve h (files w) unifiedPath = Some q"
    and U: "files w q = Some (RegularFile U)"
    and inj_append: "inject h (OpAppendFile unifiedPath) = None"
  shows "fst (mergeContents h opts unified unifiedPath file filePath w) = Inr () \<and>
    files (snd (mergeContents h opts unified unifiedPath file filePath w)) =
      (if includes_str U (blockStart file) then files w
       else (files w)(q \<mapsto> RegularFile
              (U @ (if length U > 0 \<and> \<not> endsWith U [newline, newline]
                    then [newline, newline] else []) @
               blockStart file @ [newline] @ trim C @ [newline] @ blockEnd file @ [newline])))"
proof -
  have r1: "fs_readFile h filePath w = (Inr C, w)"
    using rf fs_readFile_world [of h filePath w] by (cases "fs_readFile h filePath w") simp
  have r2: "fs_readFile h unifiedPath w = (Inr U, w)"
    using inj_read res U by (rule fs_readFile_resolved)
  have logs: "fst (io_seq (log opts a Info) (logVerbose opts b) v) = Inr () \<and>
      files (snd (io_seq (log opts a Info) (logVerbose opts b) v)) = files v" for a b v
    by (simp add: io_seq_ok log_ok logVerbose_ok keeps_log keeps_logVerbose)
  have vlogs: "fst (io_seq (logVerbose opts a) (logVerbose opts b) v) = Inr () \<and>
      files (snd (io_seq (logVerbose opts a) (logVerbose opts b) v)) = files v" for a b v
    by (simp add: io_seq_ok logVerbose_ok keeps_logVerbose)
  show ?thesis
  proof (cases "includes_str U (blockStart file)")
    case True
    then have "mergeContents h opts unified unifiedPath file filePath w =
        io_seq (logVerbose opts (''Block for '' @ file @ '' already exists in '' @ unified @
                  '', skipping merge''))
          (logVerbose opts (''Found existing block: '' @ blockStart file)) w"
      by (simp add: mergeContents_def io_bind_def r1 r2 del: append_Cons)
    with True vlogs show ?thesis by simp
  next
    case False
    define sep where "sep = (if length U > 0 \<and> \<not> endsWith U [newline, newline]
                    then [newline, newline] else [])"
    define data where "data = sep @ blockStart file @ [newline] @ trim C @ [newline] @
      blockEnd file @ [newline]"
    have ap: "fs_appendFile h unifiedPath data w =
        (Inr (), w\<lparr>files := (files w)(q \<mapsto> RegularFile (U @ data))\<rparr>)"
      using inj_append res U by (rule fs_appendFile_resolved)
    from False nodry have "mergeContents h opts unified unifiedPath file filePath w =
        io_seq (fs_appendFile h unifiedPath data)
          (io_seq (log opts (''Merged'' @ '' '' @ file @ '' into '' @ unified) Info)
             (logVerbose opts (''Block markers: '' @ blockStart file @ '' ... '' @ blockEnd file))) w"
      by (simp add: mergeContents_def io_bind_def r1 r2 Let_def data_def sep_def
          del: append_Cons append_assoc)
    also have "\<dots> = io_seq (log opts (''Merged'' @ '' '' @ file @ '' into '' @ unified) Info)
             (logVerbose opts (''Block markers: '' @ blockStart file @ '' ... '' @ blockEnd file))
             (w\<lparr>files := (files w)(q \<mapsto> RegularFile (U @ data))\<rparr>)"
      by (simp add: io_seq_ok ap)
    finally show ?thesis
      using False logs by (simp add: data_def sep_def)
  qed
qed


text \<open>
  C3. The merge step of a run that is not a dry run, for an input that reads as \<open>C\<close>
  and a unified file that reads as \<open>U\<close> (stored at \<open>q\<close>): it succeeds; if \<open>U\<close> contains
  the start marker of the file name, the file system is left as it was; otherwise the
  only change is that the unified file becomes \<open>U\<close> followed by the separator (two
  newlines when \<open>U\<close> is not empty and does not end in two newlines, else nothing), the
  start marker, a newline, \<open>C\<close> trimmed, a newline, the end marker and a newline.
  \<open>includes_str\<close> is containment as a substring (\<open>includes_str_iff\<close>).
\<close>

theorem merge_is_append:
  assumes nodry: "\<not> dryRun opts"
    and rf: "fst (fs_readFile h filePath w) = Inr C"
    and inj_read: "inject h (OpReadFile unifiedPath) = None"
    and res: "resolve h (files w) unifiedPath = Some q"
    and U: "files w q = Some (RegularFile U)"
    and inj_append: "inject h (OpAppendFile unifiedPath) = None"
  shows "fst (mergeContents h opts unified unifiedPath file filePath w) = Inr () \<and>
    files (snd (mergeContents h opts unified unifiedPath file filePath w)) =
      (if includes_str U (blockStart file) then files w
       else (files w)(q \<mapsto> RegularFile
              (U @ (if length U > 0 \<and> \<not> endsWith U [newline, newline]
                    then [newline, newline] else []) @
               blockStart file @ [newline] @ trim C @ [newline] @ blockEnd file @ [newline])))"
  using assms by (rule mergeContents_effect)

theorem merge_is_append_witness:
  "\<not> dryRun default_options \<and>
   fst (fs_readFile plain_host ''/repo/notes.md'' example_world) = Inr ''rules'' \<and>
   resolve plain_host (files example_world) ''/repo/AGENTS.md'' = Some ''/repo/AGENTS.md'' \<and>
   files example_world ''/repo/AGENTS.md'' = Some (RegularFile ''# Agents'') \<and>
   files (snd (mergeContents plain_host default_options ''AGENTS.md'' ''/repo/AGENTS.md''
                 ''notes.md'' ''/repo/notes.md'' example_world)) =
     (files example_world)(''/repo/AGENTS.md'' \<mapsto> RegularFile
        (''# Agents'' @ [newline, newline] @ [backtick] @ ''>>> notes.md'' @ [backtick, newline] @
         ''rules'' @ [newline, backtick] @ ''<<< notes.md'' @ [backtick, newline]))"
proof -
  have a: "\<not> dryRun default_options" by (simp add: default_options_def)
  have b: "fst (fs_readFile plain_host ''/repo/notes.md'' example_world) = Inr ''rules''"
    by (simp add: fs_readFile_def fs_call_def read_node_def resolve_end example_world_def
        plain_host_def)
  have c: "inject plain_host (OpReadFile ''/repo/AGENTS.md'') = None"
    by (simp add: plain_host_def)
  have d: "resolve plain_host (files example_world) ''/repo/AGENTS.md'' = Some ''/repo/AGENTS.md''"
    by (simp add: resolve_end example_world_def)
  have e: "files example_world ''/repo/AGENTS.md'' = Some (RegularFile ''# Agents'')"
    by (simp add: example_world_def)
  have f: "inject plain_host (OpAppendFile ''/repo/AGENTS.md'') = None"
    by (simp add: plain_host_def)
  have g: "\<not> includes_str ''# Agents'' (blockStart ''notes.md'')"
    by (simp add: blockStart_def startsWith_def)
  have t: "trim ''rules'' = ''rules''"
    by (simp add: trim_def isWhiteSpace_def)
  from merge_is_append [OF a b c d e f, of "''AGENTS.md''" "''notes.md''"] a b d e g t
  show ?thesis by (simp add: blockStart_def blockEnd_def endsWith_def)
qed

section \<open>Link-state reconciliation\<close>

lemma links_bind:
  assumes "\<And>w. files w p = Some (SymbolicLink t) \<Longrightarrow> files (snd (m w)) p = Some (SymbolicLink t)"
    and "\<And>x w. files w p = Some (SymbolicLink t) \<Longrightarrow> files (snd (k x w)) p = Some (SymbolicLink t)"
    and "files w p = Some (SymbolicLink t)"
  shows "files (snd (io_bind m k w)) p = Some (SymbolicLink t)"
proof (cases "m w")
  case (Pair r w')
  with assms(1) [OF assms(3)] have "files w' p = Some (SymbolicLink t)" by simp
  with Pair assms(2) show ?thesis
    by (cases r) (simp_all add: io_bind_def)
qed

lemma links_seq:
  assumes "\<And>w. files w p = Some (SymbolicLink t) \<Longrightarrow> files (snd (m w)) p = Some (SymbolicLink t)"
    and "\<And>w. files w p = Some (SymbolicLink t) \<Longrightarrow> files (snd (n w)) p = Some (SymbolicLink t)"
    and "files w p = Some (SymbolicLink t)"
  shows "files (snd (io_seq m n w)) p = Some (SymbolicLink t)"
  unfolding io_seq_def using assms by (intro links_bind) auto

lemma links_write_node:
  assumes "write_node h fs s p' f = Inr ((), fs')" and "fs p = Some (SymbolicLink t)"
  shows "fs' p = Some (SymbolicLink t)"
  using assms by (auto simp: write_node_def split: option.splits node.splits)

lemma links_writeFile:
  "files w p = Some (SymbolicLink t) \<Longrightarrow> files (snd (fs_writeFile h p' d w)) p = Some (SymbolicLink t)"
  by (auto simp: fs_writeFile_def fs_call_def split: option.splits sum.splits
      dest: links_write_node)

lemma links_appendFile:
  "files w p = Some (SymbolicLink t) \<Longrightarrow> files (snd (fs_appendFile h p' d w)) p = Some (SymbolicLink t)"
  by (auto simp: fs_appendFile_def fs_call_def split: option.splits sum.splits
      dest: links_write_node)

lemma links_addToGitignore:
  assumes "files w p = Some (SymbolicLink t)"
  shows "files (snd (addToGitignore h opts d f w)) p = Some (SymbolicLink t)"
proof (cases "dryRun opts")
  case True
  with assms show ?thesis by (simp add: addToGitignore_dry)
next
  case False
  define gp where "gp = path_join h d ''.gitignore''"
  have a: "files (snd (io_seq (fs_writeFile h gp x) (io_seq (log opts y Info) (logVerbose opts z)) v)) p
      = Some (SymbolicLink t)" if "files v p = Some (SymbolicLink t)" for x y z v
    using that
    by (intro links_seq links_writeFile) (simp_all add: keeps_log keeps_logVerbose)
  have a': "files (snd (io_seq (fs_writeFile h gp x) (io_seq (logVerbose opts y) (logVerbose opts z)) v)) p
      = Some (SymbolicLink t)" if "files v p = Some (SymbolicLink t)" for x y z v
    using that
    by (intro links_seq links_writeFile) (simp_all add: keeps_log keeps_logVerbose)
  have b: "files (snd (io_seq (fs_appendFile h gp x) (io_seq (log opts y Info) (logVerbose opts z)) v)) p
      = Some (SymbolicLink t)" if "files v p = Some (SymbolicLink t)" for x y z v
    using that
    by (intro links_seq links_appendFile) (simp_all add: keeps_log keeps_logVerbose)
  have body: "files (snd (io_bind (io_try (fs_readFile h gp)) k v)) p = Some (SymbolicLink t)"
    if "files v p = Some (SymbolicLink t)"
      and "\<And>x v. files v p = Some (SymbolicLink t) \<Longrightarrow> files (snd (k x v)) p = Some (SymbolicLink t)"
    for k v
    using that
    by (intro links_bind) (simp_all add: keeps_try keeps_readFile)
  show ?thesis
    unfolding addToGitignore_def Let_def gp_def [symmetric] using False assms
    apply (simp only: if_False)
    apply (rule links_seq)
      apply (simp add: keeps_logVerbose)
     apply (rule body)
      apply assumption
     apply (auto simp: a a' b io_return_def split: sum.splits option.splits)
    done
qed


lemma fs_lstat_ok:
  "inject h (OpLstat p) = None \<Longrightarrow> files w p = Some n \<Longrightarrow> fs_lstat h p w = (Inr n, w)"
  by (simp add: fs_lstat_def fs_call_def)

lemma fs_readlink_ok:
  "inject h (OpReadlink p) = None \<Longrightarrow> files w p = Some (SymbolicLink t) \<Longrightarrow>
   fs_readlink h p w = (Inr t, w)"
  by (simp add: fs_readlink_def fs_call_def)

lemma fs_unlink_ok:
  "inject h (OpUnlink p) = None \<Longrightarrow> files w p \<noteq> None \<Longrightarrow> files w p \<noteq> Some Directory \<Longrightarrow>
   fs_unlink h p w = (Inr (), w\<lparr>files := (files w)(p := None)\<rparr>)"
  by (auto simp: fs_unlink_def fs_call_def split: option.splits node.splits)

lemma fs_symlink_ok:
  "inject h (OpSymlink t p) = None \<Longrightarrow> files w p = None \<Longrightarrow>
   fs_symlink h t p w = (Inr (), w\<lparr>files := (files w)(p \<mapsto> SymbolicLink t)\<rparr>)"
  by (simp add: fs_symlink_def fs_call_def)

lemmas io_defs =
  io_bind_def io_seq_def io_try_def io_return_def io_throw_def process_exit_def
  console_log_def console_error_def log_def logVerbose_def

text \<open>
  C7. An input that is a symbolic link (and is not named as the unified file, which
  the loop skips), in a run that is not a dry run. \<open>T\<close> is the expected target: the
  path of the unified file with the \<open>absolute\<close> option, else its path relative to the
  directory of the input. When the link's target differs from
  \<open>T\<close> (and the calls that remove and create the link go through), one pass leaves at
  the input path a symbolic link with target \<open>T\<close>. When the target is \<open>T\<close> already, the
  link is there unchanged after the pass, whether or not links can be removed or
  created.
\<close>

theorem stale_link_is_replaced:
  assumes nodry: "\<not> dryRun opts"
    and other: "fname \<noteq> unified"
    and fp: "filePath = path_join h (cwd h) fname"
    and T: "T = (if absolute opts then unifiedPath
                 else path_relative h (path_dirname h filePath) unifiedPath)"
    and link: "files w filePath = Some (SymbolicLink cur)"
    and lstat: "inject h (OpLstat filePath) = None"
    and readlink: "inject h (OpReadlink filePath) = None"
  shows
    "(cur \<noteq> T \<longrightarrow> inject h (OpUnlink filePath) = None \<longrightarrow>
        inject h (OpSymlink T filePath) = None \<longrightarrow>
        files (snd (processFile h opts unified unifiedPath fname w)) filePath =
          Some (SymbolicLink T)) \<and>
     (cur = T \<longrightarrow>
        files (snd (processFile h opts unified unifiedPath fname w)) filePath =
          Some (SymbolicLink cur))"
proof (intro conjI impI)
  have ls: "fs_lstat h filePath v = (Inr (SymbolicLink cur), v)"
    if "files v = files w" for v
    using lstat link that by (simp add: fs_lstat_ok)
  have rl: "fs_readlink h filePath v = (Inr cur, v)"
    if "files v = files w" for v
    using readlink link that by (simp add: fs_readlink_ok)
  have ex: "expectedTarget h opts filePath unifiedPath = T"
    by (simp add: expectedTarget_def T)
  {
    assume ne: "cur \<noteq> T" and ul: "inject h (OpUnlink filePath) = None"
      and sl: "inject h (OpSymlink T filePath) = None"
    have un: "fs_unlink h filePath v = (Inr (), v\<lparr>files := (files w)(filePath := None)\<rparr>)"
      if "files v = files w" for v
      using fs_unlink_ok [OF ul, of v] link that by simp
    have sy: "fs_symlink h T filePath v =
        (Inr (), v\<lparr>files := (files w)(filePath \<mapsto> SymbolicLink T)\<rparr>)"
      if "files v = (files w)(filePath := None)" for v
      using fs_symlink_ok [OF sl, of v] that by simp
    show "files (snd (processFile h opts unified unifiedPath fname w)) filePath =
        Some (SymbolicLink T)"
      using nodry other ne
      apply (cases "verbose opts")
      apply (simp_all add: processFile_def fp [symmetric] ex io_defs ls rl un sy isSymbolicLink_def
            createSymlinkWithFallback_def Let_def del: append_Cons)
       apply (rule links_addToGitignore, simp)+
      done
  }
  {
    assume eq: "cur = T"
    show "files (snd (processFile h opts unified unifiedPath fname w)) filePath =
        Some (SymbolicLink cur)"
      using nodry other eq link
      apply (cases "verbose opts")
       apply (simp_all add: processFile_def fp [symmetric] ex io_defs ls rl isSymbolicLink_def
          Let_def del: append_Cons)
       apply (rule links_addToGitignore, simp)+
      done
  }
qed


theorem stale_link_is_replaced_witness:
  "files example_world ''/repo/stale.md'' = Some (SymbolicLink ''OLD.md'') \<and>
   files (snd (processFile plain_host default_options ''AGENTS.md'' ''/repo/AGENTS.md''
                 ''stale.md'' example_world)) ''/repo/stale.md'' =
     Some (SymbolicLink ''AGENTS.md'') \<and>
   files (snd (processFile plain_host (default_options\<lparr>absolute := True\<rparr>) ''AGENTS.md''
                 ''/repo/AGENTS.md'' ''stale.md'' example_world)) ''/repo/stale.md'' =
     Some (SymbolicLink ''/repo/AGENTS.md'') \<and>
   files example_world ''/repo/good.md'' = Some (SymbolicLink ''AGENTS.md'') \<and>
   files (snd (processFile plain_host default_options ''AGENTS.md'' ''/repo/AGENTS.md''
                 ''good.md'' example_world)) ''/repo/good.md'' =
     Some (SymbolicLink ''AGENTS.md'')"
proof -
  have rel: "plain_relative (plain_dirname ''/repo/stale.md'') ''/repo/AGENTS.md'' = ''AGENTS.md''"
    "plain_relative (plain_dirname ''/repo/good.md'') ''/repo/AGENTS.md'' = ''AGENTS.md''"
    by (simp_all add: host_simps)
  have a: "files (snd (processFile plain_host default_options ''AGENTS.md'' ''/repo/AGENTS.md''
                 ''stale.md'' example_world)) ''/repo/stale.md'' =
     Some (SymbolicLink ''AGENTS.md'')"
    using stale_link_is_replaced [where opts = default_options and fname = "''stale.md''"
        and unified = "''AGENTS.md''" and filePath = "''/repo/stale.md''" and h = plain_host
        and T = "''AGENTS.md''" and unifiedPath = "''/repo/AGENTS.md''" and w = example_world
        and cur = "''OLD.md''"] rel
    by (simp add: plain_host_def plain_join_def example_world_def default_options_def)
  have b: "files (snd (processFile plain_host (default_options\<lparr>absolute := True\<rparr>) ''AGENTS.md''
                 ''/repo/AGENTS.md'' ''stale.md'' example_world)) ''/repo/stale.md'' =
     Some (SymbolicLink ''/repo/AGENTS.md'')"
    using stale_link_is_replaced [where opts = "default_options\<lparr>absolute := True\<rparr>"
        and fname = "''stale.md''"
        and unified = "''AGENTS.md''" and filePath = "''/repo/stale.md''" and h = plain_host
        and T = "''/repo/AGENTS.md''" and unifiedPath = "''/repo/AGENTS.md''" and w = example_world
        and cur = "''OLD.md''"]
    by (simp add: plain_host_def plain_join_def example_world_def default_options_def)
  have c: "files (snd (processFile plain_host default_options ''AGENTS.md'' ''/repo/AGENTS.md''
                 ''good.md'' example_world)) ''/repo/good.md'' =
     Some (SymbolicLink ''AGENTS.md'')"
    using stale_link_is_replaced [where opts = default_options and fname = "''good.md''"
        and unified = "''AGENTS.md''" and filePath = "''/repo/good.md''" and h = plain_host
        and T = "''AGENTS.md''" and unifiedPath = "''/repo/AGENTS.md''" and w = example_world
        and cur = "''AGENTS.md''"] rel
    by (simp add: plain_host_def plain_join_def example_world_def default_options_def)
  from a b c show ?thesis by (simp add: example_world_def)
qed

section \<open>Replacing a file by a link\<close>

lemma fs_rename_ok:
  "inject h (OpRename a b) = None \<Longrightarrow> files w a = Some (RegularFile c) \<Longrightarrow>
   files w b \<noteq> Some Directory \<Longrightarrow>
   fs_rename h a b w = (Inr (), w\<lparr>files := ((files w)(a := None))(b \<mapsto> RegularFile c)\<rparr>)"
  by (simp add: fs_rename_def fs_call_def)

lemma fs_call_injected:
  "inject h op = Some e \<Longrightarrow> fs_call h op f w = (Inl (Throw e), w)"
  by (simp add: fs_call_def)

lemma backupPath_neq: "backupPathOf h p \<noteq> p"
  by (simp add: backupPathOf_def)

lemma replace_rollback:
  assumes nodry: "\<not> dryRun opts"
    and T: "T = expectedTarget h opts filePath unifiedPath"
    and bp: "backupPath = backupPathOf h filePath"
    and reg: "files v filePath = Some (RegularFile c)"
    and nodir: "files v backupPath \<noteq> Some Directory"
    and fwd: "inject h (OpRename filePath backupPath) = None"
    and sym: "inject h (OpSymlink T filePath) = Some err"
    and nofallback: "\<not> (platform h = ''win32'' \<and> (err_code err = EPERM \<or> err_code err = ENOENT))"
  shows "(inject h (OpRename backupPath filePath) = None \<longrightarrow>
           fst (replaceWithSymlink h opts unified unifiedPath fname filePath v) = Inl (Throw err) \<and>
           files (snd (replaceWithSymlink h opts unified unifiedPath fname filePath v)) =
             (files v)(backupPath := None))"
    and "(inject h (OpRename backupPath filePath) = Some rerr \<longrightarrow>
           fst (replaceWithSymlink h opts unified unifiedPath fname filePath v) = Inl (Throw rerr) \<and>
           last (console (snd (replaceWithSymlink h opts unified unifiedPath fname filePath v))) =
             (Stderr, ''Critical error: Failed to rollback '' @ fname @ ''. Backup at '' @ backupPath) \<and>
           files (snd (replaceWithSymlink h opts unified unifiedPath fname filePath v)) =
             ((files v)(filePath := None))(backupPath \<mapsto> RegularFile c))"
proof -
  have ne: "backupPath \<noteq> filePath" "filePath \<noteq> backupPath"
    using backupPath_neq [of h filePath] by (auto simp: bp)
  have r1: "fs_rename h filePath backupPath v =
      (Inr (), v\<lparr>files := ((files v)(filePath := None))(backupPath \<mapsto> RegularFile c)\<rparr>)"
    using fwd reg nodir by (rule fs_rename_ok)
  have s1: "fs_symlink h T filePath x = (Inl (Throw err), x)" for x
    unfolding fs_symlink_def using sym by (rule fs_call_injected)
  have back_ok: "fs_rename h backupPath filePath x =
      (Inr (), x\<lparr>files := (files v)(backupPath := None)\<rparr>)"
    if "inject h (OpRename backupPath filePath) = None"
      and "files x = ((files v)(filePath := None))(backupPath \<mapsto> RegularFile c)" for x
  proof -
    have "fs_rename h backupPath filePath x =
      (Inr (), x\<lparr>files := ((files x)(backupPath := None))(filePath \<mapsto> RegularFile c)\<rparr>)"
      using that ne by (intro fs_rename_ok) auto
    moreover have "((files x)(backupPath := None))(filePath \<mapsto> RegularFile c) =
        (files v)(backupPath := None)"
      using that(2) reg ne by (auto simp: fun_eq_iff)
    ultimately show ?thesis by simp
  qed
  have back_fail: "fs_rename h backupPath filePath x = (Inl (Throw rerr), x)"
    if "inject h (OpRename backupPath filePath) = Some rerr" for x
    unfolding fs_rename_def using that by (rule fs_call_injected)
  show "(inject h (OpRename backupPath filePath) = None \<longrightarrow>
           fst (replaceWithSymlink h opts unified unifiedPath fname filePath v) = Inl (Throw err) \<and>
           files (snd (replaceWithSymlink h opts unified unifiedPath fname filePath v)) =
             (files v)(backupPath := None))"
    using nodry nofallback
    by (cases "verbose opts")
      (auto simp add: replaceWithSymlink_def Let_def T [symmetric] bp [symmetric] io_defs r1 s1
        back_ok createSymlinkWithFallback_def simp del: append_Cons)
  show "(inject h (OpRename backupPath filePath) = Some rerr \<longrightarrow>
           fst (replaceWithSymlink h opts unified unifiedPath fname filePath v) = Inl (Throw rerr) \<and>
           last (console (snd (replaceWithSymlink h opts unified unifiedPath fname filePath v))) =
             (Stderr, ''Critical error: Failed to rollback '' @ fname @ ''. Backup at '' @ backupPath) \<and>
           files (snd (replaceWithSymlink h opts unified unifiedPath fname filePath v)) =
             ((files v)(filePath := None))(backupPath \<mapsto> RegularFile c))"
    using nodry nofallback
    by (cases "verbose opts")
      (auto simp add: replaceWithSymlink_def Let_def T [symmetric] bp [symmetric] io_defs r1 s1
        back_fail createSymlinkWithFallback_def simp del: append_Cons)
qed


lemma regular_file_steps:
  assumes nodry: "\<not> dryRun opts"
    and other: "fname \<noteq> unified"
    and fp: "filePath = path_join h (cwd h) fname"
    and reg: "files w filePath = Some (RegularFile c)"
    and lstat: "inject h (OpLstat filePath) = None"
    and rd: "inject h (OpReadFile filePath) = None"
    and rdu: "inject h (OpReadFile unifiedPath) = None"
    and res: "resolve h (files w) unifiedPath = Some q"
    and U: "files w q = Some (RegularFile U)"
    and ap: "inject h (OpAppendFile unifiedPath) = None"
  obtains w2 where
    "processFile h opts unified unifiedPath fname w =
       io_seq (replaceWithSymlink h opts unified unifiedPath fname filePath)
         (addToGitignore h opts (cwd h) fname) w2"
    and "files w2 = files w \<or> (\<exists>U'. files w2 = (files w)(q \<mapsto> RegularFile U'))"
proof -
  define w0 where "w0 = snd (logVerbose opts (''Processing file: '' @ fname) w)"
  have w0: "files w0 = files w"
    by (simp add: w0_def keeps_logVerbose)
  have l0: "io_seq (logVerbose opts (''Processing file: '' @ fname)) n w = n w0" for n :: "unit prog"
    unfolding w0_def by (rule io_seq_ok) (rule logVerbose_ok)
  have ls: "fs_lstat h filePath w0 = (Inr (RegularFile c), w0)"
    using lstat reg by (simp add: fs_lstat_ok w0)
  have rf: "fst (fs_readFile h filePath w0) = Inr c"
    using rd reg by (simp add: fs_readFile_resolved [where q = filePath] resolve_end w0)
  define w2 where "w2 = snd (mergeContents h opts unified unifiedPath fname filePath w0)"
  from mergeContents_effect [OF nodry rf rdu, of q U unified fname] res U ap
  have m: "fst (mergeContents h opts unified unifiedPath fname filePath w0) = Inr ()"
    and f2: "files w2 = files w \<or> (\<exists>U'. files w2 = (files w)(q \<mapsto> RegularFile U'))"
    by (auto simp: w0 w2_def)
  have "processFile h opts unified unifiedPath fname w =
      io_seq (mergeContents h opts unified unifiedPath fname filePath)
        (io_seq (replaceWithSymlink h opts unified unifiedPath fname filePath)
           (addToGitignore h opts (cwd h) fname)) w0"
    using other
    by (simp add: processFile_def fp [symmetric] l0 Let_def
        io_bind_def io_try_def ls isSymbolicLink_def del: append_Cons)
  also have "\<dots> = io_seq (replaceWithSymlink h opts unified unifiedPath fname filePath)
         (addToGitignore h opts (cwd h) fname) w2"
    unfolding w2_def using m by (rule io_seq_ok)
  finally show ?thesis using f2 by (rule that)
qed

text \<open>
  C2. A regular input file with content \<open>c\<close> in a run that is not a dry run, where the
  steps before the replacement go through (the file and the unified file can be read and
  appended to, the unified file is not the input itself, the file can be moved to the
  backup path, and no directory sits there), and where the \<^verbatim>\<open>symlink\<close> call fails with
  an error \<open>err\<close> that the Windows fallback does not handle.
  If the backup can be moved back, the loop throws \<open>err\<close> and the input path holds the
  regular file with content \<open>c\<close> again. If moving it back fails with \<open>rerr\<close>, the last
  line printed is the critical error on the error stream, naming the file and the backup
  path, the loop throws \<open>rerr\<close>, and the backup holds \<open>c\<close>. In both cases the loop ends
  with this file: what it returns is what processing this one file returns, whatever
  files follow.
\<close>

theorem rollback_on_link_failure:
  assumes nodry: "\<not> dryRun opts"
    and other: "fname \<noteq> unified"
    and fp: "filePath = path_join h (cwd h) fname"
    and T: "T = expectedTarget h opts filePath unifiedPath"
    and bp: "backupPath = backupPathOf h filePath"
    and reg: "files w filePath = Some (RegularFile c)"
    and nodir: "files w backupPath \<noteq> Some Directory"
    and lstat: "inject h (OpLstat filePath) = None"
    and rd: "inject h (OpReadFile filePath) = None"
    and rdu: "inject h (OpReadFile unifiedPath) = None"
    and res: "resolve h (files w) unifiedPath = Some q"
    and U: "files w q = Some (RegularFile U)"
    and apart: "q \<noteq> filePath"
    and ap: "inject h (OpAppendFile unifiedPath) = None"
    and fwd: "inject h (OpRename filePath backupPath) = None"
    and sym: "inject h (OpSymlink T filePath) = Some err"
    and nofallback: "\<not> (platform h = ''win32'' \<and> (err_code err = EPERM \<or> err_code err = ENOENT))"
  shows
    "(inject h (OpRename backupPath filePath) = None \<longrightarrow>
        fst (processFiles h opts unified unifiedPath (fname # rest) w) = Inl (Throw err) \<and>
        files (snd (processFiles h opts unified unifiedPath (fname # rest) w)) filePath =
          Some (RegularFile c)) \<and>
     (inject h (OpRename backupPath filePath) = Some rerr \<longrightarrow>
        fst (processFiles h opts unified unifiedPath (fname # rest) w) = Inl (Throw rerr) \<and>
        last (console (snd (processFiles h opts unified unifiedPath (fname # rest) w))) =
          (Stderr, ''Critical error: Failed to rollback '' @ fname @ ''. Backup at '' @ backupPath) \<and>
        files (snd (processFiles h opts unified unifiedPath (fname # rest) w)) backupPath =
          Some (RegularFile c)) \<and>
     processFiles h opts unified unifiedPath (fname # rest) w =
       processFile h opts unified unifiedPath fname w"
proof -
  from regular_file_steps [OF nodry other fp reg lstat rd rdu res U ap]
  obtain w2 where pf: "processFile h opts unified unifiedPath fname w =
       io_seq (replaceWithSymlink h opts unified unifiedPath fname filePath)
         (addToGitignore h opts (cwd h) fname) w2"
    and f2: "files w2 = files w \<or> (\<exists>U'. files w2 = (files w)(q \<mapsto> RegularFile U'))"
    by blast
  have reg2: "files w2 filePath = Some (RegularFile c)"
    using f2 reg apart by auto
  have nodir2: "files w2 backupPath \<noteq> Some Directory"
    using f2 nodir by (auto split: if_splits)
  note rb =
    replace_rollback(1) [OF nodry T bp reg2 nodir2 fwd sym nofallback,
      where unified = unified and fname = fname]
    replace_rollback(2) [OF nodry T bp reg2 nodir2 fwd sym nofallback,
      where unified = unified and fname = fname and rerr = rerr]
  have ne: "backupPath \<noteq> filePath"
    using backupPath_neq [of h filePath] by (simp add: bp)
  have ab: "\<exists>a. fst (replaceWithSymlink h opts unified unifiedPath fname filePath w2) = Inl a"
  proof (cases "inject h (OpRename backupPath filePath)")
    case None
    with replace_rollback(1) [OF nodry T bp reg2 nodir2 fwd sym nofallback,
        where unified = unified and fname = fname]
    show ?thesis by blast
  next
    case (Some e)
    with replace_rollback(2) [OF nodry T bp reg2 nodir2 fwd sym nofallback,
        where unified = unified and fname = fname and rerr = e]
    show ?thesis by blast
  qed
  then obtain a where a: "fst (replaceWithSymlink h opts unified unifiedPath fname filePath w2) = Inl a"
    by blast
  have pf': "processFile h opts unified unifiedPath fname w =
      (Inl a, snd (replaceWithSymlink h opts unified unifiedPath fname filePath w2))"
    unfolding pf using a by (rule io_seq_abort)
  have all: "processFiles h opts unified unifiedPath (fname # rest) w =
      processFile h opts unified unifiedPath fname w"
    by (simp add: pf' io_seq_abort [where a = a] del: append_Cons)
  show ?thesis
    unfolding all pf' using rb a ne reg2 by (auto simp del: append_Cons)
qed


lemma decimal_now: "decimal 1700000000000 = ''1700000000000''"
  by (simp add: decimal.simps)

theorem rollback_on_link_failure_witness:
  "fst (processFiles refusing_host default_options ''AGENTS.md'' ''/repo/AGENTS.md''
          [''notes.md'', ''absent.md''] example_world) = Inl (Throw eperm) \<and>
   files (snd (processFiles refusing_host default_options ''AGENTS.md'' ''/repo/AGENTS.md''
                 [''notes.md'', ''absent.md''] example_world)) ''/repo/notes.md'' =
     Some (RegularFile ''rules'') \<and>
   fst (processFiles stuck_host default_options ''AGENTS.md'' ''/repo/AGENTS.md''
          [''notes.md'', ''absent.md''] example_world) = Inl (Throw eacces) \<and>
   last (console (snd (processFiles stuck_host default_options ''AGENTS.md'' ''/repo/AGENTS.md''
                         [''notes.md'', ''absent.md''] example_world))) =
     (Stderr, ''Critical error: Failed to rollback notes.md. Backup at /repo/notes.md.backup-1700000000000'') \<and>
   files (snd (processFiles stuck_host default_options ''AGENTS.md'' ''/repo/AGENTS.md''
                 [''notes.md'', ''absent.md''] example_world))
     ''/repo/notes.md.backup-1700000000000'' = Some (RegularFile ''rules'')"
proof -
  let ?bp = "''/repo/notes.md.backup-1700000000000''"
  have h1: "\<not> dryRun default_options" by (simp add: default_options_def)
  have h2: "''notes.md'' \<noteq> ''AGENTS.md''" by simp
  have h3: "''/repo/notes.md'' = path_join h (cwd h) ''notes.md''"
    if "h = refusing_host \<or> h = stuck_host" for h
    using that by (auto simp: refusing_host_def stuck_host_def plain_host_def plain_join_def)
  have h4: "''AGENTS.md'' = expectedTarget h default_options ''/repo/notes.md'' ''/repo/AGENTS.md''"
    if "h = refusing_host \<or> h = stuck_host" for h
    using that
    by (auto simp: refusing_host_def stuck_host_def plain_host_def expectedTarget_def
        default_options_def plain_relative_def plain_dirname_def plain_basename_def)
  have h5: "?bp = backupPathOf h ''/repo/notes.md''"
    if "h = refusing_host \<or> h = stuck_host" for h
    using that
    by (auto simp: refusing_host_def stuck_host_def plain_host_def backupPathOf_def decimal_now)
  have h6: "files example_world ''/repo/notes.md'' = Some (RegularFile ''rules'')"
    by (simp add: example_world_def)
  have h7: "files example_world ?bp \<noteq> Some Directory"
    by (simp add: example_world_def)
  have h8: "resolve h (files example_world) ''/repo/AGENTS.md'' = Some ''/repo/AGENTS.md''" for h
    by (simp add: resolve_end example_world_def)
  have h9: "files example_world ''/repo/AGENTS.md'' = Some (RegularFile ''# Agents'')"
    by (simp add: example_world_def)
  have h10: "''/repo/AGENTS.md'' \<noteq> ''/repo/notes.md''" by simp
  have r: "inject refusing_host (OpLstat ''/repo/notes.md'') = None"
    "inject refusing_host (OpReadFile ''/repo/notes.md'') = None"
    "inject refusing_host (OpReadFile ''/repo/AGENTS.md'') = None"
    "inject refusing_host (OpAppendFile ''/repo/AGENTS.md'') = None"
    "inject refusing_host (OpRename ''/repo/notes.md'' ?bp) = None"
    "inject refusing_host (OpSymlink ''AGENTS.md'' ''/repo/notes.md'') = Some eperm"
    "\<not> (platform refusing_host = ''win32'' \<and> (err_code eperm = EPERM \<or> err_code eperm = ENOENT))"
    "inject refusing_host (OpRename ?bp ''/repo/notes.md'') = None"
    by (simp_all add: refusing_host_def plain_host_def no_symlinks_def)
  have s: "inject stuck_host (OpLstat ''/repo/notes.md'') = None"
    "inject stuck_host (OpReadFile ''/repo/notes.md'') = None"
    "inject stuck_host (OpReadFile ''/repo/AGENTS.md'') = None"
    "inject stuck_host (OpAppendFile ''/repo/AGENTS.md'') = None"
    "inject stuck_host (OpRename ''/repo/notes.md'' ?bp) = None"
    "inject stuck_host (OpSymlink ''AGENTS.md'' ''/repo/notes.md'') = Some eperm"
    "\<not> (platform stuck_host = ''win32'' \<and> (err_code eperm = EPERM \<or> err_code eperm = ENOENT))"
    "inject stuck_host (OpRename ?bp ''/repo/notes.md'') = Some eacces"
    by (simp_all add: stuck_host_def plain_host_def no_symlinks_no_restore_def)
  from rollback_on_link_failure [OF h1 h2 h3 h4 h5 h6 h7 r(1) r(2) r(3) h8 h9 h10 r(4) r(5) r(6) r(7),
      where rest = "[''absent.md'']", THEN conjunct1] r(8)
    rollback_on_link_failure [OF h1 h2 h3 h4 h5 h6 h7 s(1) s(2) s(3) h8 h9 h10 s(4) s(5) s(6) s(7),
      where rest = "[''absent.md'']" and rerr = eacces, THEN conjunct2, THEN conjunct1] s(8)
  show ?thesis by (simp del: processFiles.simps)
qed

section \<open>Ignore-list maintenance\<close>

lemma findIndex_from_None:
  "findIndex_from k P xs = None \<longleftrightarrow> (\<forall>j<length xs. \<not> P (xs ! j) (k + j))"
proof (induction xs arbitrary: k)
  case Nil
  then show ?case by simp
next
  case (Cons x xs)
  show ?case
  proof (cases "P x k")
    case True
    then show ?thesis by auto
  next
    case False
    have "(\<forall>j<length (x # xs). \<not> P ((x # xs) ! j) (k + j)) \<longleftrightarrow>
        (\<forall>j<length xs. \<not> P (xs ! j) (Suc k + j))"
      using False by (auto simp: less_Suc_eq_0_disj)
    with False Cons.IH [of "Suc k"] show ?thesis by simp
  qed
qed

lemma findIndex_from_Some:
  "findIndex_from k P xs = Some i \<longleftrightarrow>
     (k \<le> i \<and> i - k < length xs \<and> P (xs ! (i - k)) i \<and>
      (\<forall>j<i - k. \<not> P (xs ! j) (k + j)))"
proof (induction xs arbitrary: k)
  case Nil
  then show ?case by simp
next
  case (Cons x xs)
  show ?case
  proof (cases "P x k")
    case True
    then show ?thesis by (auto simp: less_Suc_eq_0_disj)
  next
    case False
    have "findIndex_from k P (x # xs) = Some i \<longleftrightarrow> findIndex_from (Suc k) P xs = Some i"
      using False by simp
    also have "\<dots> \<longleftrightarrow> (Suc k \<le> i \<and> i - Suc k < length xs \<and> P (xs ! (i - Suc k)) i \<and>
      (\<forall>j<i - Suc k. \<not> P (xs ! j) (Suc k + j)))"
      by (rule Cons.IH)
    also have "\<dots> \<longleftrightarrow> (k \<le> i \<and> i - k < length (x # xs) \<and> P ((x # xs) ! (i - k)) i \<and>
      (\<forall>j<i - k. \<not> P ((x # xs) ! j) (k + j)))"
    proof (cases "i = k")
      case True
      with False show ?thesis by simp
    next
      case ne: False
      show ?thesis
      proof (cases "k \<le> i")
        case True
        with ne obtain d where d: "i = Suc k + d" by (metis Suc_leI le_neq_implies_less le_Suc_ex add_Suc)
        show ?thesis using False by (auto simp: d less_Suc_eq_0_disj)
      next
        case False
        then show ?thesis by auto
      qed
    qed
    finally show ?thesis .
  qed
qed

lemma findIndex_Some:
  "findIndex P xs = Some i \<longleftrightarrow> (i < length xs \<and> P (xs ! i) i \<and> (\<forall>j<i. \<not> P (xs ! j) j))"
  by (simp add: findIndex_def findIndex_from_Some)

lemma findIndex_None:
  "findIndex P xs = None \<longleftrightarrow> (\<forall>j<length xs. \<not> P (xs ! j) j)"
  by (simp add: findIndex_def findIndex_from_None)

lemma split_newline_nonempty: "split_newline s \<noteq> []"
  by (induction s) (auto split: list.splits)

lemma split_newline_append:
  "split_newline (a @ newline # b) = split_newline a @ split_newline b"
proof (induction a)
  case Nil
  then show ?case by simp
next
  case (Cons c a)
  then show ?case
    using split_newline_nonempty [of a] by (auto split: list.splits)
qed

lemma list_ex_slice:
  assumes "b \<le> length xs"
  shows "list_ex P (slice xs a b) \<longleftrightarrow> (\<exists>j. a \<le> j \<and> j < b \<and> P (xs ! j))"
proof
  assume "list_ex P (slice xs a b)"
  then obtain i where i: "i < length (slice xs a b)" "P (slice xs a b ! i)"
    by (auto simp: list_ex_iff in_set_conv_nth)
  from i(1) assms have "i < b - a" by (simp add: slice_def)
  with i(2) assms have "P (xs ! (a + i))" by (simp add: slice_def)
  with \<open>i < b - a\<close> show "\<exists>j. a \<le> j \<and> j < b \<and> P (xs ! j)"
    by (intro exI [of _ "a + i"]) auto
next
  assume "\<exists>j. a \<le> j \<and> j < b \<and> P (xs ! j)"
  then obtain j where j: "a \<le> j" "j < b" "P (xs ! j)" by blast
  with assms have "j - a < length (slice xs a b)" "slice xs a b ! (j - a) = xs ! j"
    by (auto simp: slice_def)
  with j(3) show "list_ex P (slice xs a b)"
    unfolding list_ex_iff by (metis nth_mem)
qed


lemma fs_writeFile_resolved:
  assumes "inject h (OpWriteFile p) = None" and "resolve h (files w) p = Some q"
    and "files w q = Some (RegularFile c)"
  shows "fs_writeFile h p d w = (Inr (), w\<lparr>files := (files w)(q \<mapsto> RegularFile d)\<rparr>)"
  using assms by (simp add: fs_writeFile_def fs_call_def write_node_def)

lemma trim_ignoreBlockStart: "trim ignoreBlockStart = ignoreBlockStart"
  by (simp add: trim_def ignoreBlockStart_def isWhiteSpace_def)

lemma split_ignoreBlockStart: "split_newline ignoreBlockStart = [ignoreBlockStart]"
  by (simp add: ignoreBlockStart_def)

lemma addToGitignore_lookup:
  assumes nodry: "\<not> dryRun opts"
    and gp: "gitignorePath = path_join h dir ''.gitignore''"
    and rd: "inject h (OpReadFile gitignorePath) = None"
    and res: "resolve h (files w) gitignorePath = Some q"
    and content: "files w q = Some (RegularFile content)"
    and lines: "lines = split_newline content"
    and s_len: "s < length lines"
    and s_start: "trim (lines ! s) = ignoreBlockStart"
    and s_first: "\<forall>j<s. trim (lines ! j) \<noteq> ignoreBlockStart"
  shows
    "((\<forall>j. s < j \<and> j < length lines \<longrightarrow> trim (lines ! j) \<noteq> ignoreBlockEnd) \<longrightarrow>
      inject h (OpAppendFile gitignorePath) = None \<longrightarrow>
        files (snd (addToGitignore h opts dir filename w)) =
          (files w)(q \<mapsto> RegularFile
             (content @ [newline, newline] @ ignoreBlockStart @ [newline] @ filename @ [newline] @
              ignoreBlockEnd @ [newline])) \<and>
        2 \<le> length (filter (\<lambda>line. trim line = ignoreBlockStart)
               (split_newline
                  (content @ [newline, newline] @ ignoreBlockStart @ [newline] @ filename @
                   [newline] @ ignoreBlockEnd @ [newline])))) \<and>
     (s < e \<and> e < length lines \<and> trim (lines ! e) = ignoreBlockEnd \<and>
      (\<forall>j. s < j \<and> j < e \<longrightarrow> trim (lines ! j) \<noteq> ignoreBlockEnd) \<longrightarrow>
      inject h (OpWriteFile gitignorePath) = None \<longrightarrow>
        files (snd (addToGitignore h opts dir filename w)) =
          (if \<exists>j. s < j \<and> j < e \<and> trim (lines ! j) = filename then files w
           else (files w)(q \<mapsto> RegularFile
                  (join_newline (take e lines @ [filename] @ drop e lines)))))"
proof (intro conjI impI)
  define w0 where "w0 = snd (logVerbose opts (''Processing .gitignore for '' @ filename) w)"
  have w0: "files w0 = files w"
    by (simp add: w0_def keeps_logVerbose)
  have l0: "io_seq (logVerbose opts (''Processing .gitignore for '' @ filename)) n w = n w0"
    for n :: "unit prog"
    unfolding w0_def by (rule io_seq_ok) (rule logVerbose_ok)
  have r0: "io_try (fs_readFile h gitignorePath) w0 = (Inr (Inr content), w0)"
    using fs_readFile_resolved [OF rd, of w0 q content] res content
    by (simp add: io_try_def w0)
  have start: "findIndex (\<lambda>line idx. trim line = ignoreBlockStart) (split_newline content) = Some s"
    using s_len s_start s_first by (simp add: findIndex_Some lines)
  have logs: "files (snd (io_seq (log opts a Info) (logVerbose opts b) v)) = files v" for a b v
    by (intro keeps_seq keeps_log keeps_logVerbose)
  have vlogs: "files (snd (io_seq (logVerbose opts a) (logVerbose opts b) v)) = files v" for a b v
    by (intro keeps_seq keeps_logVerbose)
  {
    assume no_end: "\<forall>j. s < j \<and> j < length lines \<longrightarrow> trim (lines ! j) \<noteq> ignoreBlockEnd"
      and ap: "inject h (OpAppendFile gitignorePath) = None"
    have fin: "findIndex (\<lambda>line idx. idx > s \<and> trim line = ignoreBlockEnd) (split_newline content)
        = None"
      using no_end by (simp add: findIndex_None lines)
    have nonempty: "content \<noteq> []"
    proof
      assume "content = []"
      with s_len s_start lines show False
        by (simp add: trim_def ignoreBlockStart_def)
    qed
    define block where "block = [newline, newline] @ ignoreBlockStart @ [newline] @ filename @
      [newline] @ ignoreBlockEnd @ [newline]"
    have a0: "fs_appendFile h gitignorePath block w0 =
        (Inr (), w0\<lparr>files := (files w)(q \<mapsto> RegularFile (content @ block))\<rparr>)"
      using fs_appendFile_resolved [OF ap, of w0 q content block] res content by (simp add: w0)
    have "addToGitignore h opts dir filename w =
        io_seq (fs_appendFile h gitignorePath block)
          (io_seq (log opts (''Added '' @ filename @ '' to .gitignore in coalesce-memory block'') Info)
             (logVerbose opts (''Created new block: '' @ ignoreBlockStart @ '' ... '' @ ignoreBlockEnd)))
          w0"
      using nodry nonempty
      by (simp add: addToGitignore_def gp [symmetric] l0 Let_def io_bind_def r0 start fin block_def
          del: append_Cons append_assoc)
    also have "\<dots> = io_seq (log opts (''Added '' @ filename @ '' to .gitignore in coalesce-memory block'') Info)
             (logVerbose opts (''Created new block: '' @ ignoreBlockStart @ '' ... '' @ ignoreBlockEnd))
             (w0\<lparr>files := (files w)(q \<mapsto> RegularFile (content @ block))\<rparr>)"
      by (simp add: io_seq_def io_bind_def a0)
    finally show "files (snd (addToGitignore h opts dir filename w)) =
          (files w)(q \<mapsto> RegularFile
             (content @ [newline, newline] @ ignoreBlockStart @ [newline] @ filename @ [newline] @
              ignoreBlockEnd @ [newline]))"
      by (simp add: logs block_def)
    have "split_newline (content @ [newline, newline] @ ignoreBlockStart @ [newline] @ filename @
                   [newline] @ ignoreBlockEnd @ [newline]) =
        split_newline content @ [] #
          split_newline (ignoreBlockStart @ newline # filename @ [newline] @ ignoreBlockEnd @ [newline])"
      using split_newline_append [of content "newline # ignoreBlockStart @ [newline] @ filename @
                   [newline] @ ignoreBlockEnd @ [newline]"]
      by simp
    also have "\<dots> = split_newline content @ [] # [ignoreBlockStart] @
        split_newline (filename @ [newline] @ ignoreBlockEnd @ [newline])"
      by (simp only: split_newline_append split_ignoreBlockStart)
    finally have sp: "split_newline (content @ [newline, newline] @ ignoreBlockStart @ [newline] @
          filename @ [newline] @ ignoreBlockEnd @ [newline]) =
        lines @ [] # [ignoreBlockStart] @
        split_newline (filename @ [newline] @ ignoreBlockEnd @ [newline])"
      by (simp add: lines)
    have "lines ! s \<in> set (filter (\<lambda>line. trim line = ignoreBlockStart) lines)"
      using s_len s_start by simp
    then have "1 \<le> length (filter (\<lambda>line. trim line = ignoreBlockStart) lines)"
      by (metis One_nat_def Suc_leI length_greater_0_conv length_pos_if_in_set)
    then show "2 \<le> length (filter (\<lambda>line. trim line = ignoreBlockStart)
               (split_newline
                  (content @ [newline, newline] @ ignoreBlockStart @ [newline] @ filename @
                   [newline] @ ignoreBlockEnd @ [newline])))"
      unfolding sp by (simp add: trim_ignoreBlockStart)
  }
  {
    assume e: "s < e \<and> e < length lines \<and> trim (lines ! e) = ignoreBlockEnd \<and>
      (\<forall>j. s < j \<and> j < e \<longrightarrow> trim (lines ! j) \<noteq> ignoreBlockEnd)"
      and wr: "inject h (OpWriteFile gitignorePath) = None"
    have fin: "findIndex (\<lambda>line idx. idx > s \<and> trim line = ignoreBlockEnd) (split_newline content)
        = Some e"
      using e by (auto simp: findIndex_Some lines)
    have ex: "list_ex (\<lambda>line. trim line = filename) (slice (split_newline content) (Suc s) e) \<longleftrightarrow>
        (\<exists>j. s < j \<and> j < e \<and> trim (lines ! j) = filename)"
      using e by (simp add: list_ex_slice lines Suc_le_eq)
    have w1: "fs_writeFile h gitignorePath d w0 =
        (Inr (), w0\<lparr>files := (files w)(q \<mapsto> RegularFile d)\<rparr>)" for d
      using fs_writeFile_resolved [OF wr, of w0 q content d] res content by (simp add: w0)
    show "files (snd (addToGitignore h opts dir filename w)) =
          (if \<exists>j. s < j \<and> j < e \<and> trim (lines ! j) = filename then files w
           else (files w)(q \<mapsto> RegularFile
                  (join_newline (take e lines @ [filename] @ drop e lines))))"
    proof (cases "\<exists>j. s < j \<and> j < e \<and> trim (lines ! j) = filename")
      case True
      with ex have present: "list_ex (\<lambda>line. trim line = filename)
          (slice (split_newline content) (Suc s) e)"
        by simp
      have "addToGitignore h opts dir filename w = io_return () w0"
        using nodry present
        by (simp add: addToGitignore_def gp [symmetric] l0 Let_def io_bind_def r0 start fin
            del: append_Cons)
      with True show ?thesis by (simp add: io_return_def w0)
    next
      case False
      with ex have missing: "\<not> list_ex (\<lambda>line. trim line = filename)
          (slice (split_newline content) (Suc s) e)"
        by simp
      have "addToGitignore h opts dir filename w =
          io_seq (fs_writeFile h gitignorePath (join_newline (splice_insert lines e filename)))
            (io_seq (logVerbose opts (''Added '' @ filename @ '' to .gitignore''))
               (logVerbose opts (''Updated existing block at lines '' @ decimal (s + 1) @ ''-'' @
                                   decimal (e + 1)))) w0"
        using nodry missing
        by (simp add: addToGitignore_def gp [symmetric] l0 Let_def io_bind_def r0 start fin lines
            del: append_Cons)
      also have "\<dots> = io_seq (logVerbose opts (''Added '' @ filename @ '' to .gitignore''))
               (logVerbose opts (''Updated existing block at lines '' @ decimal (s + 1) @ ''-'' @
                                   decimal (e + 1)))
          (w0\<lparr>files := (files w)(q \<mapsto> RegularFile
              (join_newline (splice_insert lines e filename)))\<rparr>)"
        by (simp add: io_seq_def io_bind_def w1)
      finally have "files (snd (addToGitignore h opts dir filename w)) =
          (files w)(q \<mapsto> RegularFile (join_newline (splice_insert lines e filename)))"
        by (simp only: vlogs) simp
      then show ?thesis
        by (simp only: False if_False splice_insert_def)
    qed
  }
qed


text \<open>
  C10. The ignore file is read as \<open>content\<close>, and \<open>s\<close> is its first line that trims to
  the start marker.
  If no later line trims to the end marker, the run appends a whole new block after two
  newlines (start marker, file name, end marker, each on its own line) and leaves the
  old lines as they were, so that at least two lines of the file now trim to the start
  marker.
  If \<open>e\<close> is the first line after \<open>s\<close> that trims to the end marker, the run changes
  nothing exactly when a line strictly between \<open>s\<close> and \<open>e\<close> trims to the file name;
  otherwise it rewrites the file with the file name inserted before line \<open>e\<close>. Lines
  outside that range are not looked at.
\<close>

theorem ignore_block_lookup:
  assumes nodry: "\<not> dryRun opts"
    and gp: "gitignorePath = path_join h dir ''.gitignore''"
    and rd: "inject h (OpReadFile gitignorePath) = None"
    and res: "resolve h (files w) gitignorePath = Some q"
    and content: "files w q = Some (RegularFile content)"
    and lines: "lines = split_newline content"
    and s_len: "s < length lines"
    and s_start: "trim (lines ! s) = ignoreBlockStart"
    and s_first: "\<forall>j<s. trim (lines ! j) \<noteq> ignoreBlockStart"
  shows
    "((\<forall>j. s < j \<and> j < length lines \<longrightarrow> trim (lines ! j) \<noteq> ignoreBlockEnd) \<longrightarrow>
      inject h (OpAppendFile gitignorePath) = None \<longrightarrow>
        files (snd (addToGitignore h opts dir filename w)) =
          (files w)(q \<mapsto> RegularFile
             (content @ [newline, newline] @ ignoreBlockStart @ [newline] @ filename @ [newline] @
              ignoreBlockEnd @ [newline])) \<and>
        2 \<le> length (filter (\<lambda>line. trim line = ignoreBlockStart)
               (split_newline
                  (content @ [newline, newline] @ ignoreBlockStart @ [newline] @ filename @
                   [newline] @ ignoreBlockEnd @ [newline])))) \<and>
     (s < e \<and> e < length lines \<and> trim (lines ! e) = ignoreBlockEnd \<and>
      (\<forall>j. s < j \<and> j < e \<longrightarrow> trim (lines ! j) \<noteq> ignoreBlockEnd) \<longrightarrow>
      inject h (OpWriteFile gitignorePath) = None \<longrightarrow>
        files (snd (addToGitignore h opts dir filename w)) =
          (if \<exists>j. s < j \<and> j < e \<and> trim (lines ! j) = filename then files w
           else (files w)(q \<mapsto> RegularFile
                  (join_newline (take e lines @ [filename] @ drop e lines)))))"
  using assms by (rule addToGitignore_lookup)

theorem ignore_block_lookup_witness:
  "files (snd (addToGitignore plain_host default_options ''/repo'' ''notes.md'' truncated_world))
     ''/repo/.gitignore'' =
     Some (RegularFile
       (ignoreBlockStart @ [newline] @ ''old.md'' @ [newline, newline] @ ignoreBlockStart @
        [newline] @ ''notes.md'' @ [newline] @ ignoreBlockEnd @ [newline])) \<and>
   files (snd (addToGitignore plain_host default_options ''/repo'' ''kept.md'' block_world)) =
     files block_world \<and>
   files (snd (addToGitignore plain_host default_options ''/repo'' ''notes.md'' block_world))
     ''/repo/.gitignore'' =
     Some (RegularFile
       (''notes.md'' @ [newline] @ ignoreBlockStart @ [newline] @ ''kept.md'' @ [newline] @
        ''notes.md'' @ [newline] @ ignoreBlockEnd @ [newline]))"
proof -
  let ?gp = "''/repo/.gitignore''"
  let ?tl = "[ignoreBlockStart, ''old.md'']"
  let ?bl = "[''notes.md'', ignoreBlockStart, ''kept.md'', ignoreBlockEnd, []]"
  have h1: "\<not> dryRun default_options" by (simp add: default_options_def)
  have h2: "?gp = path_join plain_host ''/repo'' ''.gitignore''"
    by (simp add: plain_host_def plain_join_def)
  have h3: "inject plain_host (OpReadFile ?gp) = None"
    "inject plain_host (OpAppendFile ?gp) = None" "inject plain_host (OpWriteFile ?gp) = None"
    by (simp_all add: plain_host_def)
  have t4: "resolve plain_host (files truncated_world) ?gp = Some ?gp"
    by (simp add: resolve_end truncated_world_def)
  have t5: "files truncated_world ?gp =
      Some (RegularFile (ignoreBlockStart @ [newline] @ ''old.md''))"
    by (simp add: truncated_world_def)
  have t6: "?tl = split_newline (ignoreBlockStart @ [newline] @ ''old.md'')"
    by (simp add: ignoreBlockStart_def)
  have t7: "0 < length ?tl" "trim (?tl ! 0) = ignoreBlockStart"
    "\<forall>j<0. trim (?tl ! j) \<noteq> ignoreBlockStart"
    by (simp_all add: trim_ignoreBlockStart)
  have t8: "\<forall>j. 0 < j \<and> j < length ?tl \<longrightarrow> trim (?tl ! j) \<noteq> ignoreBlockEnd"
    by (auto simp: less_Suc_eq trim_def isWhiteSpace_def ignoreBlockEnd_def)
  have b4: "resolve plain_host (files block_world) ?gp = Some ?gp"
    by (simp add: resolve_end block_world_def)
  have b5: "files block_world ?gp =
      Some (RegularFile (''notes.md'' @ [newline] @ ignoreBlockStart @ [newline] @ ''kept.md'' @
        [newline] @ ignoreBlockEnd @ [newline]))"
    by (simp add: block_world_def)
  have b6: "?bl = split_newline (''notes.md'' @ [newline] @ ignoreBlockStart @ [newline] @
      ''kept.md'' @ [newline] @ ignoreBlockEnd @ [newline])"
    by (simp add: ignoreBlockStart_def ignoreBlockEnd_def)
  have tr: "trim ''notes.md'' = ''notes.md''" "trim ''kept.md'' = ''kept.md''"
    "trim ignoreBlockEnd = ignoreBlockEnd" "trim [] = []"
    "trim ''# end coalesce-memory'' = ''# end coalesce-memory''"
    "trim ''# coalesce-memory symlinked files'' = ''# coalesce-memory symlinked files''"
    by (simp_all add: trim_def isWhiteSpace_def ignoreBlockEnd_def)
  have b7: "1 < length ?bl" "trim (?bl ! 1) = ignoreBlockStart"
    "\<forall>j<1. trim (?bl ! j) \<noteq> ignoreBlockStart"
    by (simp_all add: trim_ignoreBlockStart) (simp add: tr ignoreBlockStart_def)
  have b8: "1 < (3::nat) \<and> 3 < length ?bl \<and> trim (?bl ! 3) = ignoreBlockEnd \<and>
      (\<forall>j. 1 < j \<and> j < 3 \<longrightarrow> trim (?bl ! j) \<noteq> ignoreBlockEnd)"
  proof -
    have "j = 2" if "1 < j" "j < 3" for j :: nat using that by simp
    then show ?thesis by (auto simp: tr ignoreBlockEnd_def)
  qed
  have kept: "\<exists>j. 1 < j \<and> j < 3 \<and> trim (?bl ! j) = ''kept.md''"
    by (intro exI [of _ 2]) (simp add: tr)
  have absent: "\<not> (\<exists>j. 1 < j \<and> j < 3 \<and> trim (?bl ! j) = ''notes.md'')"
  proof -
    have "j = 2" if "1 < j" "j < 3" for j :: nat using that by simp
    then show ?thesis by (auto simp: tr)
  qed
  have a: "files (snd (addToGitignore plain_host default_options ''/repo'' ''notes.md''
      truncated_world)) =
      (files truncated_world)(?gp \<mapsto> RegularFile
        ((ignoreBlockStart @ [newline] @ ''old.md'') @ [newline, newline] @ ignoreBlockStart @
         [newline] @ ''notes.md'' @ [newline] @ ignoreBlockEnd @ [newline]))"
    using ignore_block_lookup [OF h1 h2 h3(1) t4 t5 t6 t7, where filename = "''notes.md''",
        THEN conjunct1, THEN mp, OF t8, THEN mp, OF h3(2)]
    by (rule conjunct1)
  have b: "files (snd (addToGitignore plain_host default_options ''/repo'' ''kept.md''
      block_world)) = files block_world"
    using ignore_block_lookup [OF h1 h2 h3(1) b4 b5 b6 b7, where filename = "''kept.md''"
        and e = 3, THEN conjunct2, THEN mp, OF b8, THEN mp, OF h3(3)]
    by (simp only: kept if_True)
  have c: "files (snd (addToGitignore plain_host default_options ''/repo'' ''notes.md''
      block_world)) =
      (files block_world)(?gp \<mapsto> RegularFile (join_newline (take 3 ?bl @ [''notes.md''] @ drop 3 ?bl)))"
    using ignore_block_lookup [OF h1 h2 h3(1) b4 b5 b6 b7, where filename = "''notes.md''"
        and e = 3, THEN conjunct2, THEN mp, OF b8, THEN mp, OF h3(3)]
    by (simp only: absent if_False)
  from a b c show ?thesis by simp
qed

subsection \<open>Running the step twice\<close>

lemma split_newline_single: "newline \<notin> set s \<Longrightarrow> split_newline s = [s]"
  by (induction s) auto

lemma split_newline_lines: "l \<in> set (split_newline s) \<Longrightarrow> newline \<notin> set l"
proof (induction s arbitrary: l)
  case Nil
  then show ?case by simp
next
  case (Cons c s)
  show ?case
  proof (cases "c = newline")
    case True
    with Cons show ?thesis by auto
  next
    case False
    obtain x xs where sp: "split_newline s = x # xs"
      using split_newline_nonempty [of s] by (cases "split_newline s") auto
    with False Cons.prems have "l = c # x \<or> l \<in> set xs" by auto
    with False Cons.IH sp show ?thesis by auto
  qed
qed

lemma split_join_newline:
  "ls \<noteq> [] \<Longrightarrow> \<forall>l\<in>set ls. newline \<notin> set l \<Longrightarrow> split_newline (join_newline ls) = ls"
proof (induction ls rule: join_newline.induct)
  case 1
  then show ?case by simp
next
  case (2 l)
  then show ?case by (simp add: split_newline_single)
next
  case (3 l l' ls)
  then show ?case
    using split_newline_append [of l "join_newline (l' # ls)"]
    by (simp add: split_newline_single)
qed

lemma listedInBlock_iff:
  "listedInBlock f c \<longleftrightarrow>
     (\<exists>s e. s < length (split_newline c) \<and> trim (split_newline c ! s) = ignoreBlockStart \<and>
        (\<forall>j<s. trim (split_newline c ! j) \<noteq> ignoreBlockStart) \<and>
        s < e \<and> e < length (split_newline c) \<and> trim (split_newline c ! e) = ignoreBlockEnd \<and>
        (\<forall>j. s < j \<and> j < e \<longrightarrow> trim (split_newline c ! j) \<noteq> ignoreBlockEnd) \<and>
        (\<exists>j. s < j \<and> j < e \<and> trim (split_newline c ! j) = f))"
  (is "?L \<longleftrightarrow> ?R")
proof
  assume ?L
  then obtain s e where
    s: "findIndex (\<lambda>line idx. trim line = ignoreBlockStart) (split_newline c) = Some s"
    and e: "findIndex (\<lambda>line idx. idx > s \<and> trim line = ignoreBlockEnd) (split_newline c) = Some e"
    and ex: "list_ex (\<lambda>line. trim line = f) (slice (split_newline c) (s + 1) e)"
    by (auto simp: listedInBlock_def Let_def split: option.splits)
  from e have "e < length (split_newline c)" by (simp add: findIndex_Some)
  with ex have "\<exists>j. s < j \<and> j < e \<and> trim (split_newline c ! j) = f"
    by (simp add: list_ex_slice Suc_le_eq)
  with s e show ?R
    by (intro exI [of _ s] exI [of _ e]) (auto simp: findIndex_Some)
next
  assume ?R
  then obtain s e where
    s: "findIndex (\<lambda>line idx. trim line = ignoreBlockStart) (split_newline c) = Some s"
    and e: "findIndex (\<lambda>line idx. idx > s \<and> trim line = ignoreBlockEnd) (split_newline c) = Some e"
    and ex: "\<exists>j. s < j \<and> j < e \<and> trim (split_newline c ! j) = f"
    and len: "e < length (split_newline c)"
    by (auto simp: findIndex_Some)
  from ex len have "list_ex (\<lambda>line. trim line = f) (slice (split_newline c) (s + 1) e)"
    by (simp add: list_ex_slice Suc_le_eq)
  with s e show ?L by (simp add: listedInBlock_def)
qed


lemma trim_markers:
  "trim ignoreBlockStart = ignoreBlockStart" "trim ignoreBlockEnd = ignoreBlockEnd"
  "trim [] = []" "ignoreBlockStart \<noteq> ignoreBlockEnd" "ignoreBlockStart \<noteq> []"
  "ignoreBlockEnd \<noteq> []"
  by (simp_all add: trim_def isWhiteSpace_def ignoreBlockStart_def ignoreBlockEnd_def)

lemma split_markers:
  "split_newline ignoreBlockStart = [ignoreBlockStart]"
  "split_newline ignoreBlockEnd = [ignoreBlockEnd]"
  by (simp_all add: ignoreBlockStart_def ignoreBlockEnd_def)

lemma split_new_block:
  assumes "newline \<notin> set f"
  shows "split_newline (ignoreBlockStart @ [newline] @ f @ [newline] @ ignoreBlockEnd @ [newline]) =
    [ignoreBlockStart, f, ignoreBlockEnd, []]"
  using assms by (simp add: split_newline_append split_markers split_newline_single)

lemma listed_new_block:
  assumes "trim f = f" and "newline \<notin> set f" and "f \<noteq> ignoreBlockEnd"
  shows "listedInBlock f (ignoreBlockStart @ [newline] @ f @ [newline] @ ignoreBlockEnd @ [newline])"
proof -
  have j: "j = 1" if "0 < j" "j < 2" for j :: nat using that by simp
  show ?thesis
    unfolding listedInBlock_iff split_new_block [OF assms(2)]
    by (rule exI [of _ 0], rule exI [of _ 2])
      (use assms in \<open>auto simp: trim_markers dest!: j\<close>)
qed

lemma listed_after_insert:
  assumes clean: "trim f = f" "newline \<notin> set f" "f \<noteq> ignoreBlockEnd"
    and L: "L = split_newline c"
    and s: "s < length L" "trim (L ! s) = ignoreBlockStart" "\<forall>j<s. trim (L ! j) \<noteq> ignoreBlockStart"
    and e: "s < e" "e < length L" "trim (L ! e) = ignoreBlockEnd"
      "\<forall>j. s < j \<and> j < e \<longrightarrow> trim (L ! j) \<noteq> ignoreBlockEnd"
  shows "listedInBlock f (join_newline (take e L @ [f] @ drop e L))"
proof -
  let ?L' = "take e L @ [f] @ drop e L"
  have "\<forall>l\<in>set ?L'. newline \<notin> set l"
    using clean(2) split_newline_lines [of _ c]
    by (auto simp: L dest: in_set_takeD in_set_dropD)
  then have sp: "split_newline (join_newline ?L') = ?L'"
    by (intro split_join_newline) auto
  have lo: "?L' ! j = L ! j" if "j < e" for j
    using that e(2) by (simp add: nth_append)
  have mid: "?L' ! e = f"
    using e(2) by (simp add: nth_append)
  have hi: "?L' ! Suc e = L ! e"
    using e(2) by (simp add: nth_append)
  have len: "length ?L' = Suc (length L)"
    using e(2) by simp
  show ?thesis
    unfolding listedInBlock_iff sp
  proof (rule exI [of _ s], rule exI [of _ "Suc e"], intro conjI)
    show "s < length ?L'" using s(1) len by simp
    show "trim (?L' ! s) = ignoreBlockStart" using lo [of s] e(1) s(2) by simp
    show "\<forall>j<s. trim (?L' ! j) \<noteq> ignoreBlockStart"
      using s(3) e(1) lo by auto
    show "s < Suc e" using e(1) by simp
    show "Suc e < length ?L'" using e(2) len by simp
    show "trim (?L' ! Suc e) = ignoreBlockEnd" using hi e(3) by simp
    show "\<forall>j. s < j \<and> j < Suc e \<longrightarrow> trim (?L' ! j) \<noteq> ignoreBlockEnd"
    proof (intro allI impI)
      fix j assume j: "s < j \<and> j < Suc e"
      show "trim (?L' ! j) \<noteq> ignoreBlockEnd"
      proof (cases "j = e")
        case True
        with mid clean show ?thesis by simp
      next
        case False
        with j have "j < e" by simp
        with j e(4) lo [of j] show ?thesis by simp
      qed
    qed
    show "\<exists>j. s < j \<and> j < Suc e \<and> trim (?L' ! j) = f"
      using e(1) mid clean(1) by (intro exI [of _ e]) simp
  qed
qed

lemma listed_after_append:
  assumes clean: "trim f = f" "newline \<notin> set f" "f \<noteq> ignoreBlockEnd"
    and L: "L = split_newline c"
    and no_block:
      "(\<forall>j<length L. trim (L ! j) \<noteq> ignoreBlockStart) \<or>
       (\<exists>s<length L. trim (L ! s) = ignoreBlockStart \<and> (\<forall>j<s. trim (L ! j) \<noteq> ignoreBlockStart) \<and>
          (\<forall>j. s < j \<and> j < length L \<longrightarrow> trim (L ! j) \<noteq> ignoreBlockEnd))"
  shows "listedInBlock f (c @ [newline, newline] @ ignoreBlockStart @ [newline] @ f @ [newline] @
    ignoreBlockEnd @ [newline])"
proof -
  let ?n = "length L"
  let ?L' = "L @ [[], ignoreBlockStart, f, ignoreBlockEnd, []]"
  have "split_newline (c @ [newline, newline] @ ignoreBlockStart @ [newline] @ f @ [newline] @
      ignoreBlockEnd @ [newline]) =
      split_newline c @ [] #
        split_newline (ignoreBlockStart @ [newline] @ f @ [newline] @ ignoreBlockEnd @ [newline])"
    using split_newline_append [of c "newline # ignoreBlockStart @ [newline] @ f @ [newline] @
      ignoreBlockEnd @ [newline]"]
    by simp
  then have sp: "split_newline (c @ [newline, newline] @ ignoreBlockStart @ [newline] @ f @
      [newline] @ ignoreBlockEnd @ [newline]) = ?L'"
    by (simp only: split_new_block [OF clean(2)] L)
  have lo: "?L' ! j = L ! j" if "j < ?n" for j
    using that by (simp add: nth_append)
  have tail: "?L' ! ?n = []" "?L' ! Suc ?n = ignoreBlockStart" "?L' ! Suc (Suc ?n) = f"
    "?L' ! Suc (Suc (Suc ?n)) = ignoreBlockEnd"
    by (simp_all add: nth_append)
  have len: "length ?L' = ?n + 5" by simp
  have between: "j < ?n \<or> j = ?n \<or> j = Suc ?n \<or> j = Suc (Suc ?n)"
    if "j < Suc (Suc (Suc ?n))" for j
    using that by auto
  from no_block show ?thesis
  proof
    assume none: "\<forall>j<length L. trim (L ! j) \<noteq> ignoreBlockStart"
    show ?thesis
      unfolding listedInBlock_iff sp
    proof (rule exI [of _ "Suc ?n"], rule exI [of _ "Suc (Suc (Suc ?n))"], intro conjI)
      show "Suc ?n < length ?L'" by simp
      show "trim (?L' ! Suc ?n) = ignoreBlockStart" by (simp only: tail trim_markers)
      show "\<forall>j<Suc ?n. trim (?L' ! j) \<noteq> ignoreBlockStart"
      proof (intro allI impI)
        fix j assume "j < Suc ?n"
        then consider "j < ?n" | "j = ?n" by (auto simp: less_Suc_eq)
        then show "trim (?L' ! j) \<noteq> ignoreBlockStart"
        proof cases
          case 1
          with none lo [of j] show ?thesis by simp
        next
          case 2
          then show ?thesis using trim_markers by (simp only: tail) simp
        qed
      qed
      show "Suc ?n < Suc (Suc (Suc ?n))" by simp
      show "Suc (Suc (Suc ?n)) < length ?L'" by simp
      show "trim (?L' ! Suc (Suc (Suc ?n))) = ignoreBlockEnd" by (simp only: tail trim_markers)
      show "\<forall>j. Suc ?n < j \<and> j < Suc (Suc (Suc ?n)) \<longrightarrow> trim (?L' ! j) \<noteq> ignoreBlockEnd"
      proof (intro allI impI)
        fix j assume "Suc ?n < j \<and> j < Suc (Suc (Suc ?n))"
        then have "j = Suc (Suc ?n)" by simp
        then show "trim (?L' ! j) \<noteq> ignoreBlockEnd" using clean by (simp only: tail) simp
      qed
      show "\<exists>j. Suc ?n < j \<and> j < Suc (Suc (Suc ?n)) \<and> trim (?L' ! j) = f"
        using clean(1) by (intro exI [of _ "Suc (Suc ?n)"]) (simp only: tail, simp)
    qed
  next
    assume "\<exists>s<length L. trim (L ! s) = ignoreBlockStart \<and> (\<forall>j<s. trim (L ! j) \<noteq> ignoreBlockStart) \<and>
          (\<forall>j. s < j \<and> j < length L \<longrightarrow> trim (L ! j) \<noteq> ignoreBlockEnd)"
    then obtain s where s: "s < ?n" "trim (L ! s) = ignoreBlockStart"
      "\<forall>j<s. trim (L ! j) \<noteq> ignoreBlockStart"
      "\<forall>j. s < j \<and> j < length L \<longrightarrow> trim (L ! j) \<noteq> ignoreBlockEnd"
      by blast
    show ?thesis
      unfolding listedInBlock_iff sp
    proof (rule exI [of _ s], rule exI [of _ "Suc (Suc (Suc ?n))"], intro conjI)
      show "s < length ?L'" using s(1) by simp
      show "trim (?L' ! s) = ignoreBlockStart" using lo [OF s(1)] s(2) by simp
      show "\<forall>j<s. trim (?L' ! j) \<noteq> ignoreBlockStart"
        using s(1) s(3) lo by auto
      show "s < Suc (Suc (Suc ?n))" using s(1) by simp
      show "Suc (Suc (Suc ?n)) < length ?L'" by simp
      show "trim (?L' ! Suc (Suc (Suc ?n))) = ignoreBlockEnd" by (simp only: tail trim_markers)
      show "\<forall>j. s < j \<and> j < Suc (Suc (Suc ?n)) \<longrightarrow> trim (?L' ! j) \<noteq> ignoreBlockEnd"
      proof (intro allI impI)
        fix j assume j: "s < j \<and> j < Suc (Suc (Suc ?n))"
        then consider "j < ?n" | "j = ?n" | "j = Suc ?n" | "j = Suc (Suc ?n)"
          using between [of j] by blast
        then show "trim (?L' ! j) \<noteq> ignoreBlockEnd"
        proof cases
          case 1
          with j s(4) lo [of j] show ?thesis by simp
        next
          case 2
          then show ?thesis using trim_markers by (simp only: tail) simp
        next
          case 3
          then show ?thesis using trim_markers by (simp only: tail) simp
        next
          case 4
          then show ?thesis using clean by (simp only: tail) simp
        qed
      qed
      show "\<exists>j. s < j \<and> j < Suc (Suc (Suc ?n)) \<and> trim (?L' ! j) = f"
        using clean(1) s(1) by (intro exI [of _ "Suc (Suc ?n)"]) (simp only: tail, simp)
    qed
  qed
qed


lemma addToGitignore_listed:
  assumes nodry: "\<not> dryRun opts"
    and gp: "gitignorePath = path_join h dir ''.gitignore''"
    and rd: "inject h (OpReadFile gitignorePath) = None"
    and wr: "inject h (OpWriteFile gitignorePath) = None"
    and res: "resolve h (files w) gitignorePath = Some q"
    and content: "files w q = Some (RegularFile c)"
    and listed: "listedInBlock f c"
  shows "files (snd (addToGitignore h opts dir f w)) = files w"
proof -
  from listed obtain s e where
    s: "s < length (split_newline c)" "trim (split_newline c ! s) = ignoreBlockStart"
      "\<forall>j<s. trim (split_newline c ! j) \<noteq> ignoreBlockStart"
    and e: "s < e \<and> e < length (split_newline c) \<and> trim (split_newline c ! e) = ignoreBlockEnd \<and>
        (\<forall>j. s < j \<and> j < e \<longrightarrow> trim (split_newline c ! j) \<noteq> ignoreBlockEnd)"
    and j: "\<exists>j. s < j \<and> j < e \<and> trim (split_newline c ! j) = f"
    unfolding listedInBlock_iff by blast
  from addToGitignore_lookup [OF nodry gp rd res content refl s, where e = e and filename = f,
      THEN conjunct2, THEN mp, OF e, THEN mp, OF wr]
  show ?thesis by (simp only: j if_True)
qed

lemma addToGitignore_absent:
  assumes nodry: "\<not> dryRun opts"
    and gp: "gitignorePath = path_join h dir ''.gitignore''"
    and rd: "inject h (OpReadFile gitignorePath) = None"
    and wr: "inject h (OpWriteFile gitignorePath) = None"
    and res: "resolve h (files w) gitignorePath = Some q"
    and absent: "files w q = None"
  shows "files (snd (addToGitignore h opts dir f w)) =
    (files w)(q \<mapsto> RegularFile
       (ignoreBlockStart @ [newline] @ f @ [newline] @ ignoreBlockEnd @ [newline]))"
proof -
  define w0 where "w0 = snd (logVerbose opts (''Processing .gitignore for '' @ f) w)"
  have w0: "files w0 = files w"
    by (simp add: w0_def keeps_logVerbose)
  have l0: "io_seq (logVerbose opts (''Processing .gitignore for '' @ f)) n w = n w0"
    for n :: "unit prog"
    unfolding w0_def by (rule io_seq_ok) (rule logVerbose_ok)
  have r0: "\<exists>e. io_try (fs_readFile h gitignorePath) w0 = (Inr (Inl e), w0)"
    using rd res absent
    by (simp add: io_try_def fs_readFile_def fs_call_def read_node_def w0)
  then obtain e where r0: "io_try (fs_readFile h gitignorePath) w0 = (Inr (Inl e), w0)" ..
  have w1: "fs_writeFile h gitignorePath d w0 =
      (Inr (), w0\<lparr>files := (files w)(q \<mapsto> RegularFile d)\<rparr>)" for d
    using wr res absent by (simp add: fs_writeFile_def fs_call_def write_node_def w0)
  have logs: "files (snd (io_seq (log opts a Info) (logVerbose opts b) v)) = files v" for a b v
    by (intro keeps_seq keeps_log keeps_logVerbose)
  have "addToGitignore h opts dir f w =
      io_seq (log opts (''Created .gitignore with coalesce-memory block and added '' @ f) Info)
        (logVerbose opts (''Added block: '' @ ignoreBlockStart @ '' ... '' @ ignoreBlockEnd))
        (w0\<lparr>files := (files w)(q \<mapsto> RegularFile
           (ignoreBlockStart @ [newline] @ f @ [newline] @ ignoreBlockEnd @ [newline]))\<rparr>)"
    using nodry
    by (simp add: addToGitignore_def gp [symmetric] l0 Let_def io_bind_def r0
        io_seq_def [of "fs_writeFile h gitignorePath _"] w1 del: append_Cons)
  then show ?thesis by (simp only: logs) simp
qed

lemma addToGitignore_no_start:
  assumes nodry: "\<not> dryRun opts"
    and gp: "gitignorePath = path_join h dir ''.gitignore''"
    and rd: "inject h (OpReadFile gitignorePath) = None"
    and ap: "inject h (OpAppendFile gitignorePath) = None"
    and res: "resolve h (files w) gitignorePath = Some q"
    and content: "files w q = Some (RegularFile c)"
    and none: "\<forall>j<length (split_newline c). trim (split_newline c ! j) \<noteq> ignoreBlockStart"
  shows "files (snd (addToGitignore h opts dir f w)) =
    (files w)(q \<mapsto> RegularFile
       (c @ (if length c > 0 then [newline, newline] else []) @
        ignoreBlockStart @ [newline] @ f @ [newline] @ ignoreBlockEnd @ [newline]))"
proof -
  define w0 where "w0 = snd (logVerbose opts (''Processing .gitignore for '' @ f) w)"
  have w0: "files w0 = files w"
    by (simp add: w0_def keeps_logVerbose)
  have l0: "io_seq (logVerbose opts (''Processing .gitignore for '' @ f)) n w = n w0"
    for n :: "unit prog"
    unfolding w0_def by (rule io_seq_ok) (rule logVerbose_ok)
  have r0: "io_try (fs_readFile h gitignorePath) w0 = (Inr (Inr c), w0)"
    using fs_readFile_resolved [OF rd, of w0 q c] res content
    by (simp add: io_try_def w0)
  have start: "findIndex (\<lambda>line idx. trim line = ignoreBlockStart) (split_newline c) = None"
    using none by (simp add: findIndex_None)
  define block where "block = (if length c > 0 then [newline, newline] else []) @
    ignoreBlockStart @ [newline] @ f @ [newline] @ ignoreBlockEnd @ [newline]"
  have a0: "fs_appendFile h gitignorePath block w0 =
      (Inr (), w0\<lparr>files := (files w)(q \<mapsto> RegularFile (c @ block))\<rparr>)"
    using fs_appendFile_resolved [OF ap, of w0 q c block] res content by (simp add: w0)
  have logs: "files (snd (io_seq (log opts a Info) (logVerbose opts b) v)) = files v" for a b v
    by (intro keeps_seq keeps_log keeps_logVerbose)
  have "addToGitignore h opts dir f w =
      io_seq (fs_appendFile h gitignorePath block)
        (io_seq (log opts (''Added '' @ f @ '' to .gitignore in coalesce-memory block'') Info)
           (logVerbose opts (''Created new block: '' @ ignoreBlockStart @ '' ... '' @ ignoreBlockEnd)))
        w0"
    using nodry
    by (simp add: addToGitignore_def gp [symmetric] l0 Let_def io_bind_def r0 start block_def
        del: append_Cons append_assoc)
  also have "\<dots> = io_seq (log opts (''Added '' @ f @ '' to .gitignore in coalesce-memory block'') Info)
           (logVerbose opts (''Created new block: '' @ ignoreBlockStart @ '' ... '' @ ignoreBlockEnd))
           (w0\<lparr>files := (files w)(q \<mapsto> RegularFile (c @ block))\<rparr>)"
    by (simp add: io_seq_def io_bind_def a0)
  finally show ?thesis by (simp only: logs) (simp add: block_def)
qed


lemma addToGitignore_result:
  assumes nodry: "\<not> dryRun opts"
    and gp: "gitignorePath = path_join h dir ''.gitignore''"
    and rd: "inject h (OpReadFile gitignorePath) = None"
    and wr: "inject h (OpWriteFile gitignorePath) = None"
    and ap: "inject h (OpAppendFile gitignorePath) = None"
    and res: "resolve h (files w) gitignorePath = Some q"
    and nodir: "files w q \<noteq> Some Directory"
    and clean: "trim f = f" "newline \<notin> set f" "f \<noteq> ignoreBlockEnd"
  shows "\<exists>c1. files (snd (addToGitignore h opts dir f w)) = (files w)(q \<mapsto> RegularFile c1) \<and>
    listedInBlock f c1"
proof (cases "files w q")
  case None
  from addToGitignore_absent [OF nodry gp rd wr res None, of f] listed_new_block [OF clean]
  show ?thesis by blast
next
  case (Some n)
  from res have "\<And>t. files w q \<noteq> Some (SymbolicLink t)"
    unfolding resolve_def by (rule follow_not_link)
  with Some nodir obtain c where c: "files w q = Some (RegularFile c)"
    by (cases n) auto
  define L where "L = split_newline c"
  let ?start = "\<lambda>j. j < length L \<and> trim (L ! j) = ignoreBlockStart"
  show ?thesis
  proof (cases "\<exists>j. ?start j")
    case False
    then have none: "\<forall>j<length (split_newline c). trim (split_newline c ! j) \<noteq> ignoreBlockStart"
      by (simp add: L_def)
    note eff = addToGitignore_no_start [OF nodry gp rd ap res c none, of f]
    show ?thesis
    proof (cases "c = []")
      case True
      with eff listed_new_block [OF clean] show ?thesis by auto
    next
      case False
      have "listedInBlock f (c @ [newline, newline] @ ignoreBlockStart @ [newline] @ f @ [newline] @
          ignoreBlockEnd @ [newline])"
        using none by (intro listed_after_append [OF clean refl]) simp
      with eff False show ?thesis by auto
    qed
  next
    case True
    then obtain s where s0: "?start s" "\<forall>j<s. \<not> ?start j"
      using exists_least_iff [of ?start] by blast
    then have s: "s < length L" "trim (L ! s) = ignoreBlockStart"
      "\<forall>j<s. trim (L ! j) \<noteq> ignoreBlockStart"
      by auto
    let ?end = "\<lambda>j. s < j \<and> j < length L \<and> trim (L ! j) = ignoreBlockEnd"
    show ?thesis
    proof (cases "\<exists>j. ?end j")
      case False
      then have no_end: "\<forall>j. s < j \<and> j < length L \<longrightarrow> trim (L ! j) \<noteq> ignoreBlockEnd"
        by blast
      from addToGitignore_lookup [OF nodry gp rd res c L_def s, where filename = f,
          THEN conjunct1, THEN mp, OF no_end, THEN mp, OF ap]
      have eff: "files (snd (addToGitignore h opts dir f w)) =
          (files w)(q \<mapsto> RegularFile
             (c @ [newline, newline] @ ignoreBlockStart @ [newline] @ f @ [newline] @
              ignoreBlockEnd @ [newline]))"
        by (rule conjunct1)
      have "listedInBlock f (c @ [newline, newline] @ ignoreBlockStart @ [newline] @ f @ [newline] @
          ignoreBlockEnd @ [newline])"
        using s no_end by (intro listed_after_append [OF clean L_def]) blast
      with eff show ?thesis by blast
    next
      case True
      then obtain e where e0: "?end e" "\<forall>j<e. \<not> ?end j"
        using exists_least_iff [of ?end] by blast
      then have e: "s < e \<and> e < length L \<and> trim (L ! e) = ignoreBlockEnd \<and>
          (\<forall>j. s < j \<and> j < e \<longrightarrow> trim (L ! j) \<noteq> ignoreBlockEnd)"
        by auto
      note eff = addToGitignore_lookup [OF nodry gp rd res c L_def s, where filename = f
          and e = e, THEN conjunct2, THEN mp, OF e, THEN mp, OF wr]
      show ?thesis
      proof (cases "\<exists>j. s < j \<and> j < e \<and> trim (L ! j) = f")
        case True
        with eff have "files (snd (addToGitignore h opts dir f w)) = files w"
          by (simp only: if_True)
        also have "\<dots> = (files w)(q \<mapsto> RegularFile c)"
          using c by (simp add: fun_upd_idem)
        finally have "files (snd (addToGitignore h opts dir f w)) = (files w)(q \<mapsto> RegularFile c)" .
        moreover have "listedInBlock f c"
          unfolding listedInBlock_iff L_def [symmetric] using s e True by blast
        ultimately show ?thesis by blast
      next
        case False
        with eff have "files (snd (addToGitignore h opts dir f w)) =
            (files w)(q \<mapsto> RegularFile (join_newline (take e L @ [f] @ drop e L)))"
          by (simp only: if_False)
        moreover have "listedInBlock f (join_newline (take e L @ [f] @ drop e L))"
          using s e by (intro listed_after_insert [OF clean L_def]) auto
        ultimately show ?thesis by blast
      qed
    qed
  qed
qed

text \<open>
  The ignore-list step is idempotent for the names the comparison handles: a name that
  is its own trimmed form, has no newline in it and is not the end marker. Once the step
  has run (on an ignore file that can be read and written), the name is listed in the
  block, and running the step again changes no file.
\<close>

lemma addToGitignore_twice:
  assumes nodry: "\<not> dryRun opts"
    and gp: "gitignorePath = path_join h dir ''.gitignore''"
    and rd: "inject h (OpReadFile gitignorePath) = None"
    and wr: "inject h (OpWriteFile gitignorePath) = None"
    and ap: "inject h (OpAppendFile gitignorePath) = None"
    and res: "resolve h (files w) gitignorePath = Some q"
    and nodir: "files w q \<noteq> Some Directory"
    and clean: "trim f = f" "newline \<notin> set f" "f \<noteq> ignoreBlockEnd"
  shows "files (snd (addToGitignore h opts dir f (snd (addToGitignore h opts dir f w)))) =
    files (snd (addToGitignore h opts dir f w))"
proof -
  define w1 where "w1 = snd (addToGitignore h opts dir f w)"
  from addToGitignore_result [OF nodry gp rd wr ap res nodir clean]
  obtain c1 where f1: "files w1 = (files w)(q \<mapsto> RegularFile c1)" and listed: "listedInBlock f c1"
    unfolding w1_def by blast
  have res1: "resolve h (files w1) gitignorePath = Some q"
    using res unfolding resolve_def f1 by (rule follow_update)
  have c1: "files w1 q = Some (RegularFile c1)"
    by (simp add: f1)
  from addToGitignore_listed [OF nodry gp rd wr res1 c1 listed]
  show ?thesis by (simp add: w1_def)
qed

section \<open>An output flag without a value\<close>

text \<open>
  C6, as stated, fails: with \<^verbatim>\<open>-o\<close> as the only argument the program prints the
  no-input-files text on standard output and exits with code 0.
\<close>

theorem missing_output_value_counterexample:
  "fst (main plain_host [''-o''] example_world) = 0 \<and>
   console (snd (main plain_host [''-o''] example_world)) =
     [(Stdout, ''No input files specified.''),
      (Stdout, ''Usage: come [options] <file1.md> [file2.md] [...]'')]"
  by (simp add: main_def switch_arg_def run_def io_defs default_options_def example_world_def)

lemma main_after_parse:
  assumes "fst (parseArgs argv (default_options, []) w) = Inr (opts, fl)"
  shows "main h argv w =
    (case run h opts fl w of
       (Inr u, w') \<Rightarrow> (0, w')
     | (Inl (Exit n), w') \<Rightarrow> (n, w')
     | (Inl (Throw err), w') \<Rightarrow> (1, snd (console_error (''Error: '' @ err_message err) w')))"
proof -
  obtain r w' where p: "parseArgs argv (default_options, []) w = (r, w')"
    by (cases "parseArgs argv (default_options, []) w")
  with assms have r: "r = Inr (opts, fl)" by simp
  from p r have "w' = w" by (auto dest: parseArgs_world)
  with p r have "io_bind (parseArgs argv (default_options, []))
      (\<lambda>(opts, filesToProcess). run h opts filesToProcess) w = run h opts fl w"
    by (simp add: io_bind_def)
  then show ?thesis by (simp add: main_def)
qed

lemma showUsage_ok: "fst (showUsage w) = Inr ()"
  by (simp add: showUsage_def io_defs)

lemma switch_arg_output:
  "switch_arg arg = CaseOutput \<longleftrightarrow> arg = ''-o'' \<or> arg = ''--output''"
  by (simp add: switch_arg_def)

lemma undefined_output_from_last_flag:
  assumes "fst (parseArgs argv (opts0, fl0) w) = Inr (opts, fl)"
    and "outputFile opts0 \<noteq> None" and "outputFile opts = None"
  shows "argv \<noteq> [] \<and> (last argv = ''-o'' \<or> last argv = ''--output'')"
  using assms
proof (induction argv "(opts0, fl0)" arbitrary: opts0 fl0 w rule: parseArgs.induct)
  case 1
  then show ?case by (simp add: io_return_def)
next
  case (2 arg rest opts0 fl0)
  show ?case
  proof (cases "switch_arg arg")
    case CaseOutput
    show ?thesis
    proof (cases rest)
      case Nil
      with CaseOutput show ?thesis by (simp add: switch_arg_output)
    next
      case (Cons v rest')
      with CaseOutput 2 show ?thesis by simp
    qed
  next
    case CaseDefault
    show ?thesis
    proof (cases "startsWith arg ''-''")
      case True
      with CaseDefault "2.prems" show ?thesis
        by (simp add: io_seq_def io_bind_def console_error_def process_exit_def)
    next
      case False
      with CaseDefault 2 show ?thesis by simp
    qed
  qed (use 2 in simp_all)
qed

lemma parseArgs_append:
  assumes "fst (parseArgs pre (opts0, fl0) w) = Inr (opts1, fl1)"
    and "outputFile opts0 \<noteq> None" and "outputFile opts1 \<noteq> None"
  shows "parseArgs (pre @ rest) (opts0, fl0) w = parseArgs rest (opts1, fl1) w"
  using assms
proof (induction pre "(opts0, fl0)" arbitrary: opts0 fl0 rule: parseArgs.induct)
  case 1
  then show ?case by (simp add: io_return_def)
next
  case (2 arg more opts0 fl0)
  show ?case
  proof (cases "switch_arg arg")
    case CaseOutput
    show ?thesis
    proof (cases more)
      case Nil
      with CaseOutput "2.prems" show ?thesis by (auto simp: io_return_def)
    next
      case (Cons v more')
      with CaseOutput 2 show ?thesis by simp
    qed
  next
    case CaseDefault
    show ?thesis
    proof (cases "startsWith arg ''-''")
      case True
      with CaseDefault "2.prems" show ?thesis
        by (simp add: io_seq_def io_bind_def console_error_def process_exit_def)
    next
      case False
      with CaseDefault 2 show ?thesis by simp
    qed
  qed (use 2 in simp_all)
qed

lemma final_output_flag_parse:
  assumes pre: "fst (parseArgs pre (default_options, []) w) = Inr (opts1, fl)"
    and has_value: "outputFile opts1 \<noteq> None"
    and flag: "flag = ''-o'' \<or> flag = ''--output''"
  shows "parseArgs (pre @ [flag]) (default_options, []) w =
    (Inr (opts1\<lparr>outputFile := None\<rparr>, fl), w)"
proof -
  have d: "outputFile default_options \<noteq> None" by (simp add: default_options_def)
  have "parseArgs (pre @ [flag]) (default_options, []) w = parseArgs [flag] (opts1, fl) w"
    using pre d has_value by (rule parseArgs_append)
  also have "\<dots> = (Inr (opts1\<lparr>outputFile := None\<rparr>, fl), w)"
    using flag by (auto simp: switch_arg_def io_return_def)
  finally show ?thesis .
qed

lemma showUsage_result: "showUsage w = (Inr (), w\<lparr>console := console w @ usage_lines\<rparr>)"
  by (simp add: showUsage_def io_defs usage_lines_def)

lemma undefined_output_run:
  assumes parsed: "fst (parseArgs argv (default_options, []) w) = Inr (opts, fl)"
    and undefined_output: "outputFile opts = None"
  shows "main h argv w =
    (if showHelp opts then (0, w\<lparr>console := console w @ usage_lines\<rparr>)
     else if showVersion opts then (0, w\<lparr>console := console w @ [(Stdout, pkg_version h)]\<rparr>)
     else if fl = [] then
       (0, w\<lparr>console := console w @
              [(Stdout, ''No input files specified.''),
               (Stdout, ''Usage: come [options] <file1.md> [file2.md] [...]'')]\<rparr>)
     else (1, w\<lparr>console := console w @
                 [(Stderr, ''Error: '' @ err_message invalid_path_argument)]\<rparr>))"
proof -
  note m = main_after_parse [OF parsed, of h]
  consider (wants_help) "showHelp opts" | (wants_version) "\<not> showHelp opts" "showVersion opts"
    | (nofiles) "\<not> showHelp opts" "\<not> showVersion opts" "fl = []"
    | (some_files) "\<not> showHelp opts" "\<not> showVersion opts" "fl \<noteq> []"
    by blast
  then show ?thesis
  proof cases
    case wants_help
    then have "run h opts fl w = (Inl (Exit 0), w\<lparr>console := console w @ usage_lines\<rparr>)"
      by (simp add: run_def io_seq_def io_bind_def showUsage_result process_exit_def)
    with wants_help show ?thesis by (simp add: m)
  next
    case wants_version
    then have "run h opts fl w =
        (Inl (Exit 0), w\<lparr>console := console w @ [(Stdout, pkg_version h)]\<rparr>)"
      by (simp add: run_def io_defs)
    with wants_version show ?thesis by (simp add: m)
  next
    case nofiles
    then have "run h opts fl w =
        (Inl (Exit 0), w\<lparr>console := console w @
              [(Stdout, ''No input files specified.''),
               (Stdout, ''Usage: come [options] <file1.md> [file2.md] [...]'')]\<rparr>)"
      by (simp add: run_def io_defs)
    with nofiles show ?thesis by (simp add: m)
  next
    case some_files
    then have "run h opts fl w = (Inl (Throw invalid_path_argument), w)"
      using undefined_output by (simp add: run_def io_throw_def)
    with some_files show ?thesis by (simp add: m console_error_def)
  qed
qed

text \<open>
  C6, amended. The final argument is \<^verbatim>\<open>-o\<close> or \<^verbatim>\<open>--output\<close> and is read as a flag:
  the arguments before it parse without error, and the last \<^verbatim>\<open>-o\<close> or \<^verbatim>\<open>--output\<close>
  among them, if any, has its value. Then parsing succeeds with the output path
  undefined, the run changes no file, and what it prints depends on the other
  arguments: with a help flag, the usage text, exit code 0; else with the version
  flag, the version, exit code 0; else with no input file, the no-input-files line and
  the usage line, exit code 0; else (an input file is given) the type error of
  \<^verbatim>\<open>path.isAbsolute\<close> on the error stream, exit code 1. Nothing else is printed.
\<close>

theorem missing_output_value:
  assumes pre: "fst (parseArgs pre (default_options, []) w) = Inr (opts1, fl)"
    and has_value: "outputFile opts1 \<noteq> None"
    and flag: "flag = ''-o'' \<or> flag = ''--output''"
  shows "parseArgs (pre @ [flag]) (default_options, []) w =
      (Inr (opts1\<lparr>outputFile := None\<rparr>, fl), w) \<and>
    files (snd (main h (pre @ [flag]) w)) = files w \<and>
    main h (pre @ [flag]) w =
      (if showHelp opts1 then (0, w\<lparr>console := console w @ usage_lines\<rparr>)
       else if showVersion opts1 then
         (0, w\<lparr>console := console w @ [(Stdout, pkg_version h)]\<rparr>)
       else if fl = [] then
         (0, w\<lparr>console := console w @
                [(Stdout, ''No input files specified.''),
                 (Stdout, ''Usage: come [options] <file1.md> [file2.md] [...]'')]\<rparr>)
       else (1, w\<lparr>console := console w @
                   [(Stderr, ''Error: '' @ err_message invalid_path_argument)]\<rparr>))"
proof -
  note p = final_output_flag_parse [OF pre has_value flag]
  then have p': "fst (parseArgs (pre @ [flag]) (default_options, []) w) =
      Inr (opts1\<lparr>outputFile := None\<rparr>, fl)"
    by simp
  have u: "outputFile (opts1\<lparr>outputFile := None\<rparr>) = None" by simp
  note r = undefined_output_run [OF p' u, of h]
  from r have "files (snd (main h (pre @ [flag]) w)) = files w"
    by (simp split: if_splits)
  with p r show ?thesis by simp
qed


theorem missing_output_value_witness:
  "fst (parseArgs [''notes.md''] (default_options, []) example_world) =
     Inr (default_options, [''notes.md'']) \<and>
   outputFile default_options \<noteq> None \<and>
   main plain_host [''notes.md'', ''--output''] example_world =
     (1, example_world\<lparr>console :=
           [(Stderr, ''Error: The '' @ [dquote] @ ''path'' @ [dquote] @
                     '' argument must be of type string. Received undefined'')]\<rparr>) \<and>
   fst (parseArgs [''-h''] (default_options, []) example_world) =
     Inr (default_options\<lparr>showHelp := True\<rparr>, []) \<and>
   main plain_host [''-h'', ''-o''] example_world =
     (0, example_world\<lparr>console := usage_lines\<rparr>)"
proof -
  have p: "fst (parseArgs [''notes.md''] (default_options, []) example_world) =
     Inr (default_options, [''notes.md''])"
    by (simp add: switch_arg_def startsWith_def io_return_def)
  have q: "fst (parseArgs [''-h''] (default_options, []) example_world) =
     Inr (default_options\<lparr>showHelp := True\<rparr>, [])"
    by (simp add: switch_arg_def io_return_def)
  have v: "outputFile default_options \<noteq> None"
    "outputFile (default_options\<lparr>showHelp := True\<rparr>) \<noteq> None"
    by (simp_all add: default_options_def)
  have f: "''--output'' = ''-o'' \<or> ''--output'' = ''--output''" "''-o'' = ''-o'' \<or> ''-o'' = ''--output''"
    by simp_all
  from missing_output_value [OF p v(1) f(1), of plain_host]
    missing_output_value [OF q v(2) f(2), of plain_host] p q v(1)
  show ?thesis
    by (simp add: default_options_def invalid_path_argument_def example_world_def)
qed

section \<open>Running twice\<close>

lemmas run_defs =
  main_def run_def ensureUnified_def processFile_def addToGitignore_def
  createSymlinkWithFallback_def expectedTarget_def switch_arg_def default_options_def
  fs_access_def fs_readFile_def fs_writeFile_def fs_appendFile_def fs_lstat_def fs_readlink_def
  fs_symlink_def fs_call_def read_node_def write_node_def isSymbolicLink_def sys_error_def

lemma first_run: "main plain_host ['' a.md''] empty_world = (0, after_first_run)"
  by (simp add: run_defs io_defs host_simps empty_world_def after_first_run_def resolve_end Let_def)


text \<open>
  C1 does not hold for a file name with white space at its end or start. Started in an
  empty directory with the one argument \<^verbatim>\<open>" a.md"\<close>, the program exits with code 0 and
  leaves an ignore file whose block lists the name once. Run again with the same
  argument from that state, it exits with code 0 again and the block lists the name
  twice: the lines of the block are trimmed before they are compared with the name,
  the name is not.
\<close>

theorem second_run_adds_duplicate:
  "fst (main plain_host ['' a.md''] empty_world) = 0 \<and>
   files (snd (main plain_host ['' a.md''] empty_world)) ''/repo/.gitignore'' =
     Some (RegularFile
       (ignoreBlockStart @ [newline] @ '' a.md'' @ [newline] @ ignoreBlockEnd @ [newline])) \<and>
   fst (main plain_host ['' a.md''] (snd (main plain_host ['' a.md''] empty_world))) = 0 \<and>
   files (snd (main plain_host ['' a.md''] (snd (main plain_host ['' a.md''] empty_world))))
     ''/repo/.gitignore'' =
     Some (RegularFile
       (ignoreBlockStart @ [newline] @ '' a.md'' @ [newline] @ '' a.md'' @ [newline] @
        ignoreBlockEnd @ [newline]))"
proof -
  have second: "fst (main plain_host ['' a.md''] after_first_run) = 0 \<and>
      files (snd (main plain_host ['' a.md''] after_first_run)) ''/repo/.gitignore'' =
        Some (RegularFile
          (ignoreBlockStart @ [newline] @ '' a.md'' @ [newline] @ '' a.md'' @ [newline] @
           ignoreBlockEnd @ [newline]))"
    by (simp add: run_defs io_defs host_simps after_first_run_def resolve_end Let_def
        ignoreBlockStart_def ignoreBlockEnd_def findIndex_def trim_def isWhiteSpace_def
        slice_def splice_insert_def)
  show ?thesis
    using second by (simp add: first_run) (simp add: after_first_run_def)
qed

text \<open>
  The same two runs with the name \<^verbatim>\<open>a.md\<close>, which has no white space around it: the
  second run leaves every file as the first run left it.
\<close>

lemma second_run_plain_name:
  "files (snd (main plain_host [''a.md''] (snd (main plain_host [''a.md''] empty_world)))) =
   files (snd (main plain_host [''a.md''] empty_world))"
proof -
  define w1 where "w1 =
     \<lparr>files =
        [''/repo/AGENTS.md'' \<mapsto> RegularFile [],
         ''/repo/a.md'' \<mapsto> SymbolicLink ''AGENTS.md'',
         ''/repo/.gitignore'' \<mapsto>
           RegularFile
             (ignoreBlockStart @ [newline] @ ''a.md'' @ [newline] @ ignoreBlockEnd @ [newline])],
      console =
        [(Stdout, ''Created symlink for non-existent file: a.md''),
         (Stdout, ''Created .gitignore with coalesce-memory block and added a.md'')]\<rparr>"
  have one: "main plain_host [''a.md''] empty_world = (0, w1)"
    by (simp add: run_defs io_defs host_simps empty_world_def w1_def resolve_end Let_def)
  have two: "files (snd (main plain_host [''a.md''] w1)) = files w1"
    by (simp add: run_defs io_defs host_simps w1_def resolve_end Let_def
        ignoreBlockStart_def ignoreBlockEnd_def findIndex_def trim_def isWhiteSpace_def
        slice_def splice_insert_def)
  show ?thesis by (simp add: one two)
qed

end
